theory Spec2Isabelle
  imports Main
begin

section \<open>The SSE session of CrownstoneSSE.ts\<close>

text \<open>
  The class \<open>CrownstoneSSE\<close> is embedded as a record of its fields together with the
  state of its collaborators (the EventSource objects it constructed, the pending timers,
  the login requests in flight) and a trace of the calls it made on them. Every method is a
  function on that record. The runtime is single threaded: a method, a listener or a timer
  callback runs to completion, so one run of a handler is one step of the model.

  Real time is not modelled: a timer is a pending entry carrying its delay, and the
  scheduler may fire any pending entry. The logger has no effect on the session and is
  left out. The caller's event callback is a sink: invoking it appends to the trace.
\<close>

subsection \<open>Data\<close>

type_synonym handle = nat
type_synonym timer_id = nat
type_synonym fetch_id = nat
type_synonym closure = nat
type_synonym callback = nat

text \<open>The constructor's options; an omitted field is \<open>None\<close>.\<close>

record sseOptions =
  opt_sseUrl :: "string option"
  opt_loginUrl :: "string option"
  opt_hubLoginBase :: "string option"
  opt_projectName :: "string option"
  opt_autoreconnect :: "bool option"
  opt_requireAuthentication :: "bool option"

text \<open>The cached login data: an object with an optional \<open>hub\<close> and an optional \<open>user\<close> property.\<close>

record hub_cred =
  hubId :: string
  hubToken :: string

record user_cred =
  email :: string
  hashedPassword :: string

record cachedLoginData =
  hub :: "hub_cred option"
  user :: "user_cred option"

text \<open>
  What \<open>JSON.parse\<close> returns: the listener receives it untyped. An object is the list of
  its properties, each name once. A number is kept as an integer: a JSON number with a
  fraction, or one beyond the integers a double holds exactly, is left out; such a number
  is never \<open>=== 401\<close>, and its text has a character that is no capital letter.
\<close>

datatype json =
    JNull
  | JBool bool
  | JNum int
  | JStr string
  | JArr "json list"
  | JObj "(string \<times> json) list"

text \<open>
  What a message event carries: no data (\<open>event?.data\<close> is falsy), data that \<open>JSON.parse\<close>
  rejects, or the value it parses to.
\<close>

datatype payload = No_data | Unparsable | Parsed json

datatype readyState = CONNECTING | OPEN | CLOSED

text \<open>An EventSource object: its URL, its readyState and the listener registered per event type.\<close>

record event_source =
  es_url :: string
  es_readyState :: readyState
  on_open :: "closure option"
  on_message :: "closure option"
  on_error :: "closure option"

datatype lkind = L_open | L_message | L_error

text \<open>
  The four timer callbacks of the source: the closure of \<open>_messageReceived\<close>, the interval
  closure of the open listener, the closure of the error listener, and the \<open>resolve\<close> of the
  two second delay inside \<open>retryWithNewAccessToken\<close>.
\<close>

datatype timer_action = Heartbeat | Poll | Reconnect | RecoveryDelay

record timer =
  t_action :: timer_action
  t_delay :: int
  t_repeat :: bool

datatype error =
    AccessToken_required
  | NO_CREDENTIALS
  | TypeError
  | SyntaxError
  | Login_error string

text \<open>
  The outcome of a login request: a body without a 401 error, whose \<open>id\<close>, a string,
  becomes the token; a body whose \<open>error.statusCode\<close> is 401; or a request that failed
  otherwise (the request itself, or reading its body). The string of the last two is the
  \<open>code\<close> of the error that is rethrown.
\<close>

datatype response = Resp_id string | Resp_401 string | Resp_failed string

datatype request_body = No_body | Login_body string string

text \<open>Who waits for a login promise: its caller, or the chain of \<open>retryWithNewAccessToken\<close>.\<close>

datatype awaiter = Caller | Recovery

record request =
  rq_url :: string
  rq_body :: request_body
  rq_awaiter :: awaiter

datatype promise = Pending fetch_id | Rejected error

datatype effect =
    E_clearTimeout "timer_id option"
  | E_clearInterval "timer_id option"
  | E_setTimeout timer_id timer_action int
  | E_setInterval timer_id timer_action int
  | E_new_EventSource handle string
  | E_addEventListener handle lkind closure
  | E_removeEventListener handle lkind closure
  | E_close handle
  | E_callback callback json
  | E_fetch_POST fetch_id string request_body

record state =
  requireAuthentication :: bool
  autoreconnect :: bool
  eventSource :: "handle option"
  accessToken :: "string option"
  eventCallback :: "callback option"
  checkerInterval :: "timer_id option"
  reconnectTimeout :: "timer_id option"
  pingTimeout :: "timer_id option"
  projectName :: "string option"
  sse_url :: string
  login_url :: string
  hubLogin_baseUrl :: string
  cachedLoginData :: "cachedLoginData option"
  listeners :: closure
  next_closure :: closure
  sources :: "event_source list"
  timers :: "(timer_id \<times> timer) list"
  next_timer :: timer_id
  fetches :: "(fetch_id \<times> request) list"
  next_fetch :: fetch_id
  trace :: "effect list"
  uncaught :: "error list"

text \<open>
  \<open>eventCallback\<close> is \<open>None\<close> while the field is undefined; the three handle fields are
  \<open>None\<close> while they are null. \<open>listeners\<close> names the three closures stored in
  \<open>this.listeners\<close>: \<open>start\<close> replaces all three in one go, so one identity stands for the
  triple. \<open>uncaught\<close> collects what a handler throws and what a promise nobody handles is
  rejected with.
\<close>

subsection \<open>What the listener does with a parsed value\<close>

text \<open>
  The message listener reads \<open>message.type\<close>, \<open>message.code\<close> and \<open>message.subType\<close>.
  On \<open>null\<close> that is a TypeError; an object gives the property, or undefined
  (\<open>None\<close>) without it; a string, number, boolean or array has none of the three.
\<close>

fun get_property :: "json \<Rightarrow> string \<Rightarrow> error + json option" where
  "get_property JNull k = Inl TypeError"
| "get_property (JObj ps) k = Inr (map_of ps k)"
| "get_property _ k = Inr None"

text \<open>The text of an integer: decimal digits, after a minus sign when negative.\<close>

definition digit_char :: "nat \<Rightarrow> char" where
  "digit_char d = ''0123456789'' ! d"

fun digits :: "nat \<Rightarrow> string" where
  "digits n = (if n < 10 then [digit_char n] else digits (n div 10) @ [digit_char (n mod 10)])"

declare digits.simps [simp del]

definition number_text :: "int \<Rightarrow> string" where
  "number_text n = (if n < 0 then CHR ''-'' # digits (nat (- n)) else digits (nat n))"

text \<open>
  \<open>ToString\<close>, which is also what \<open>==\<close> turns an array or object into before it compares
  it with a string. An array is its elements joined by commas, \<open>null\<close> elements giving the
  empty text. An object made by \<open>JSON.parse\<close> is \<open>[object Object]\<close>, unless it has a
  property \<open>toString\<close> of its own: that hides the method, no JSON value can be called in
  its place, and the conversion is a TypeError.
\<close>

fun js_ToString :: "json \<Rightarrow> error + string"
  and js_join :: "json list \<Rightarrow> error + string" where
  "js_ToString JNull = Inr ''null''"
| "js_ToString (JBool b) = Inr (if b then ''true'' else ''false'')"
| "js_ToString (JNum n) = Inr (number_text n)"
| "js_ToString (JStr x) = Inr x"
| "js_ToString (JArr xs) = js_join xs"
| "js_ToString (JObj ps) =
     (if map_of ps ''toString'' \<noteq> None then Inl TypeError else Inr ''[object Object]'')"
| "js_join [] = Inr []"
| "js_join (x # xs) =
     (case (if x = JNull then Inr [] else js_ToString x) of
        Inl e \<Rightarrow> Inl e
      | Inr a \<Rightarrow>
          (if xs = [] then Inr a
           else (case js_join xs of Inl e \<Rightarrow> Inl e | Inr b \<Rightarrow> Inr (a @ '','' @ b))))"

text \<open>
  \<open>v == t\<close> for a property \<open>v\<close> and a string \<open>t\<close> that is not the text of a number, as
  the two constants of the listener are. Undefined and \<open>null\<close> equal no string; a number
  or boolean is compared with the number the string stands for, which is NaN and equals
  nothing; a string must be the same string; an array or object is converted first.
\<close>

fun loose_eq :: "json option \<Rightarrow> string \<Rightarrow> error + bool" where
  "loose_eq None t = Inr False"
| "loose_eq (Some JNull) t = Inr False"
| "loose_eq (Some (JBool b)) t = Inr False"
| "loose_eq (Some (JNum n)) t = Inr False"
| "loose_eq (Some (JStr x)) t = Inr (x = t)"
| "loose_eq (Some v) t = (case js_ToString v of Inl e \<Rightarrow> Inl e | Inr x \<Rightarrow> Inr (x = t))"

text \<open>
  \<open>message.type === 'system' && message.code === 401 && message.subType == sub\<close>, each
  conjunct evaluated only when the ones before it hold.
\<close>

definition token_test :: "string \<Rightarrow> json \<Rightarrow> error + bool" where
  "token_test sub m =
     (case get_property m ''type'' of
        Inl e \<Rightarrow> Inl e
      | Inr ty \<Rightarrow>
          (if ty \<noteq> Some (JStr ''system'') then Inr False
           else (case get_property m ''code'' of
                   Inl e \<Rightarrow> Inl e
                 | Inr c \<Rightarrow>
                     (if c \<noteq> Some (JNum 401) then Inr False
                      else (case get_property m ''subType'' of
                              Inl e \<Rightarrow> Inl e
                            | Inr v \<Rightarrow> loose_eq v sub)))))"

subsection \<open>The collaborators\<close>

definition clear_Timeout :: "timer_id option \<Rightarrow> state \<Rightarrow> state" where
  "clear_Timeout t s =
     s\<lparr>timers := filter (\<lambda>p. Some (fst p) \<noteq> t) (timers s),
       trace := trace s @ [E_clearTimeout t]\<rparr>"

definition clear_Interval :: "timer_id option \<Rightarrow> state \<Rightarrow> state" where
  "clear_Interval t s =
     s\<lparr>timers := filter (\<lambda>p. Some (fst p) \<noteq> t) (timers s),
       trace := trace s @ [E_clearInterval t]\<rparr>"

definition set_Timeout :: "timer_action \<Rightarrow> int \<Rightarrow> state \<Rightarrow> state" where
  "set_Timeout a d s =
     s\<lparr>timers := timers s @ [(next_timer s, \<lparr>t_action = a, t_delay = d, t_repeat = False\<rparr>)],
       next_timer := Suc (next_timer s),
       trace := trace s @ [E_setTimeout (next_timer s) a d]\<rparr>"

definition set_Interval :: "timer_action \<Rightarrow> int \<Rightarrow> state \<Rightarrow> state" where
  "set_Interval a d s =
     s\<lparr>timers := timers s @ [(next_timer s, \<lparr>t_action = a, t_delay = d, t_repeat = True\<rparr>)],
       next_timer := Suc (next_timer s),
       trace := trace s @ [E_setInterval (next_timer s) a d]\<rparr>"

definition new_EventSource :: "string \<Rightarrow> state \<Rightarrow> state" where
  "new_EventSource u s =
     s\<lparr>sources := sources s @
          [\<lparr>es_url = u, es_readyState = CONNECTING,
            on_open = None, on_message = None, on_error = None\<rparr>],
       trace := trace s @ [E_new_EventSource (length (sources s)) u]\<rparr>"

fun set_listener :: "lkind \<Rightarrow> closure option \<Rightarrow> event_source \<Rightarrow> event_source" where
  "set_listener L_open c e = e\<lparr>on_open := c\<rparr>"
| "set_listener L_message c e = e\<lparr>on_message := c\<rparr>"
| "set_listener L_error c e = e\<lparr>on_error := c\<rparr>"

fun get_listener :: "lkind \<Rightarrow> event_source \<Rightarrow> closure option" where
  "get_listener L_open e = on_open e"
| "get_listener L_message e = on_message e"
| "get_listener L_error e = on_error e"

text \<open>A call on the EventSource behind a handle changes that object and no other.\<close>

definition at_handle ::
  "handle \<Rightarrow> (event_source \<Rightarrow> event_source) \<Rightarrow> event_source list \<Rightarrow> event_source list" where
  "at_handle h f xs = (if h < length xs then xs[h := f (xs ! h)] else xs)"

definition drop_listener :: "lkind \<Rightarrow> closure \<Rightarrow> event_source \<Rightarrow> event_source" where
  "drop_listener k c e = (if get_listener k e = Some c then set_listener k None e else e)"

definition addEventListener :: "handle \<Rightarrow> lkind \<Rightarrow> closure \<Rightarrow> state \<Rightarrow> state" where
  "addEventListener h k c s =
     s\<lparr>sources := at_handle h (set_listener k (Some c)) (sources s),
       trace := trace s @ [E_addEventListener h k c]\<rparr>"

definition removeEventListener :: "handle \<Rightarrow> lkind \<Rightarrow> closure \<Rightarrow> state \<Rightarrow> state" where
  "removeEventListener h k c s =
     s\<lparr>sources := at_handle h (drop_listener k c) (sources s),
       trace := trace s @ [E_removeEventListener h k c]\<rparr>"

definition close :: "handle \<Rightarrow> state \<Rightarrow> state" where
  "close h s =
     s\<lparr>sources := at_handle h (\<lambda>e. e\<lparr>es_readyState := CLOSED\<rparr>) (sources s),
       trace := trace s @ [E_close h]\<rparr>"

definition fetch_POST :: "string \<Rightarrow> request_body \<Rightarrow> state \<Rightarrow> state" where
  "fetch_POST u b s =
     s\<lparr>fetches := fetches s @ [(next_fetch s, \<lparr>rq_url = u, rq_body = b, rq_awaiter = Caller\<rparr>)],
       next_fetch := Suc (next_fetch s),
       trace := trace s @ [E_fetch_POST (next_fetch s) u b]\<rparr>"

definition invoke :: "callback \<Rightarrow> json \<Rightarrow> state \<Rightarrow> state" where
  "invoke cb ev s = s\<lparr>trace := trace s @ [E_callback cb ev]\<rparr>"

text \<open>String concatenation with a value that may be null.\<close>

definition js_string :: "string option \<Rightarrow> string" where
  "js_string v = (case v of None \<Rightarrow> ''null'' | Some x \<Rightarrow> x)"

text \<open>\<open>str.substr(-1, 1)\<close>: the last character, the empty string for the empty string.\<close>

definition substr_last :: "string \<Rightarrow> string" where
  "substr_last x = (if x = [] then [] else [last x])"

text \<open>\<open>a ?? b\<close>\<close>

definition nullish :: "'a option \<Rightarrow> 'a \<Rightarrow> 'a" where
  "nullish a b = (case a of None \<Rightarrow> b | Some x \<Rightarrow> x)"

subsection \<open>Construction\<close>

definition DEFAULT_sseUrl :: string where
  "DEFAULT_sseUrl = ''https://events.ownstone.org/sse''"

definition DEFAULT_loginUrl :: string where
  "DEFAULT_loginUrl = ''https://cloud.ownstone.org/api/users/login''"

definition DEFAULT_hubLoginBase :: string where
  "DEFAULT_hubLoginBase = ''https://cloud.ownstone.org/api/Hubs/''"

text \<open>The field initialisers of the class, with no EventSource, timer or request around.\<close>

definition field_initializers :: state where
  "field_initializers =
     \<lparr>requireAuthentication = True,
      autoreconnect = False,
      eventSource = None,
      accessToken = None,
      eventCallback = None,
      checkerInterval = None,
      reconnectTimeout = None,
      pingTimeout = None,
      projectName = None,
      sse_url = DEFAULT_sseUrl,
      login_url = DEFAULT_loginUrl,
      hubLogin_baseUrl = DEFAULT_hubLoginBase,
      cachedLoginData = None,
      listeners = 0,
      next_closure = 1,
      sources = [],
      timers = [],
      next_timer = 0,
      fetches = [],
      next_fetch = 0,
      trace = [],
      uncaught = []\<rparr>"

text \<open>
  The constructor. \<open>version\<close> is \<open>config.version\<close>, of a module that is not part of the
  sources at hand; \<open>opts\<close> is \<open>None\<close> when the caller passes no options.
\<close>

definition opt_field :: "sseOptions option \<Rightarrow> (sseOptions \<Rightarrow> 'a option) \<Rightarrow> 'a option" where
  "opt_field opts f = (case opts of None \<Rightarrow> None | Some x \<Rightarrow> f x)"

definition "constructor" :: "string \<Rightarrow> sseOptions option \<Rightarrow> state" where
  "constructor version opts =
     (let s1 = field_initializers
               \<lparr>sse_url := nullish (opt_field opts opt_sseUrl) DEFAULT_sseUrl,
                login_url := nullish (opt_field opts opt_loginUrl) DEFAULT_loginUrl,
                hubLogin_baseUrl := nullish (opt_field opts opt_hubLoginBase) DEFAULT_hubLoginBase,
                projectName := Some (nullish (opt_field opts opt_projectName) ''no_project_name'')\<rparr>;
          s2 = s1\<lparr>projectName :=
                 Some (''crownstone-lib-nodejs-sse-'' @ version @ ''-'' @ js_string (projectName s1))\<rparr>;
          s3 = (if substr_last (hubLogin_baseUrl s2) \<noteq> ''/''
                then s2\<lparr>hubLogin_baseUrl := hubLogin_baseUrl s2 @ ''/''\<rparr> else s2);
          s4 = s3\<lparr>autoreconnect :=
                 (case opts of None \<Rightarrow> True
                  | Some x \<Rightarrow> (case opt_autoreconnect x of None \<Rightarrow> True | Some b \<Rightarrow> b))\<rparr>
      in s4\<lparr>requireAuthentication :=
              (case opts of None \<Rightarrow> True
               | Some x \<Rightarrow> (case opt_requireAuthentication x of None \<Rightarrow> True | Some b \<Rightarrow> b))\<rparr>)"

subsection \<open>Logging in\<close>

text \<open>
  \<open>loginHashed\<close> and \<open>hubLogin\<close> store the credentials and send the request; what they do
  with the response is \<open>login_response\<close> below. Both are async functions: they return a
  promise and never throw to their caller.
\<close>

definition loginHashed :: "string \<Rightarrow> string \<Rightarrow> state \<Rightarrow> state \<times> promise" where
  "loginHashed em sha1passwordHash s =
     (let s1 = s\<lparr>cachedLoginData :=
                  Some \<lparr>hub = None, user = Some \<lparr>email = em, hashedPassword = sha1passwordHash\<rparr>\<rparr>\<rparr>
      in (fetch_POST (login_url s1) (Login_body em sha1passwordHash) s1, Pending (next_fetch s1)))"

definition login :: "(string \<Rightarrow> string) \<Rightarrow> string \<Rightarrow> string \<Rightarrow> state \<Rightarrow> state \<times> promise" where
  "login sha1 em password s = loginHashed em (sha1 password) s"

definition hubLogin :: "string \<Rightarrow> string \<Rightarrow> state \<Rightarrow> state \<times> promise" where
  "hubLogin hid htoken s =
     (let s1 = s\<lparr>cachedLoginData :=
                  Some \<lparr>hub = Some \<lparr>hubId = hid, hubToken = htoken\<rparr>, user = None\<rparr>\<rparr>;
          combinedUrl = hubLogin_baseUrl s1 @ hid @ ''/login?token='' @ htoken
      in (fetch_POST combinedUrl No_body s1, Pending (next_fetch s1)))"

definition retryLogin :: "state \<Rightarrow> state \<times> promise" where
  "retryLogin s =
     (case cachedLoginData s of
        None \<Rightarrow> (s, Rejected TypeError)
      | Some c \<Rightarrow>
          (case hub c of
             Some hc \<Rightarrow> hubLogin (hubId hc) (hubToken hc) s
           | None \<Rightarrow>
               (case user c of
                  Some uc \<Rightarrow> loginHashed (email uc) (hashedPassword uc) s
                | None \<Rightarrow> (s, Rejected NO_CREDENTIALS))))"

definition setAccessToken :: "string option \<Rightarrow> state \<Rightarrow> state" where
  "setAccessToken token s = s\<lparr>accessToken := token\<rparr>"

subsection \<open>Closing and starting\<close>

definition clearPendingActions :: "state \<Rightarrow> state" where
  "clearPendingActions s =
     (let s1 = clear_Interval (checkerInterval s) s;
          s2 = clear_Timeout (reconnectTimeout s1) s1
      in clear_Timeout (pingTimeout s2) s2)"

definition closeEventSource :: "state \<Rightarrow> state" where
  "closeEventSource s =
     (let s1 = clearPendingActions s
      in case eventSource s1 of
           None \<Rightarrow> s1
         | Some h \<Rightarrow>
             (let s2 = removeEventListener h L_open (listeners s1) s1;
                  s3 = removeEventListener h L_message (listeners s2) s2;
                  s4 = removeEventListener h L_error (listeners s3) s3;
                  s5 = close h s4
              in s5\<lparr>eventSource := None\<rparr>))"

definition stop :: "state \<Rightarrow> state" where
  "stop s = closeEventSource (s\<lparr>autoreconnect := False\<rparr>)"

definition messageReceived :: "state \<Rightarrow> state" where
  "messageReceived s =
     (let s1 = clear_Timeout (pingTimeout s) s;
          s2 = set_Timeout Heartbeat 40000 s1
      in s2\<lparr>pingTimeout := Some (next_timer s1)\<rparr>)"

definition start_url :: "state \<Rightarrow> string" where
  "start_url s =
     (if requireAuthentication s = True
      then sse_url s @ ''?accessToken='' @ js_string (accessToken s)
           @ ''&projectName='' @ js_string (projectName s)
      else sse_url s)"

text \<open>
  \<open>start\<close> is an async function: its throw rejects the promise it returns, which is the
  second component here. The body of the promise it builds runs at once, so all of
  \<open>start\<close> is one step.
\<close>

definition start :: "callback option \<Rightarrow> state \<Rightarrow> state \<times> error option" where
  "start cb s =
     (if accessToken s = None \<and> requireAuthentication s = True
      then (s, Some AccessToken_required)
      else
        (let s1 = s\<lparr>eventCallback := cb\<rparr>;
             s2 = clearPendingActions s1;
             s3 = (if eventSource s2 \<noteq> None then closeEventSource s2 else s2);
             url = start_url s3;
             h = length (sources s3);
             s4 = (new_EventSource url s3)\<lparr>eventSource := Some h\<rparr>;
             s5 = s4\<lparr>listeners := next_closure s4, next_closure := Suc (next_closure s4)\<rparr>;
             s6 = addEventListener h L_open (listeners s5) s5;
             s7 = addEventListener h L_message (listeners s6) s6
         in (addEventListener h L_error (listeners s7) s7, None)))"

text \<open>A rejected promise that nobody handles, or an exception a handler lets escape.\<close>

definition unhandled :: "state \<times> error option \<Rightarrow> state" where
  "unhandled r =
     (case snd r of None \<Rightarrow> fst r | Some e \<Rightarrow> (fst r)\<lparr>uncaught := uncaught (fst r) @ [e]\<rparr>)"

subsection \<open>Token refresh\<close>

definition COULD_NOT_REFRESH_TOKEN :: "string \<Rightarrow> json" where
  "COULD_NOT_REFRESH_TOKEN msg =
     JObj [(''type'', JStr ''system''), (''subType'', JStr ''COULD_NOT_REFRESH_TOKEN''),
           (''code'', JNum 401), (''message'', JStr msg)]"

text \<open>\<open>this.eventCallback(errorEvent)\<close>, a TypeError when the field is undefined.\<close>

definition call_eventCallback :: "json \<Rightarrow> state \<Rightarrow> state \<times> error option" where
  "call_eventCallback ev s =
     (case eventCallback s of
        None \<Rightarrow> (s, Some TypeError)
      | Some cb \<Rightarrow> (invoke cb ev s, None))"

definition attach_recovery :: "fetch_id \<Rightarrow> state \<Rightarrow> state" where
  "attach_recovery f s =
     s\<lparr>fetches := map (\<lambda>p. if fst p = f then (fst p, (snd p)\<lparr>rq_awaiter := Recovery\<rparr>) else p)
                     (fetches s)\<rparr>"

text \<open>
  \<open>retryWithNewAccessToken\<close>. Inside its \<open>try\<close> the source calls \<open>retryLogin\<close>, an async
  function, and chains three \<open>then\<close> on the promise without awaiting it. None of that
  throws, so the \<open>catch\<close> block has nothing to catch: a login that fails rejects the
  chain, and the rejection is handled by nobody. A promise that is already rejected
  (no credentials) goes the same way.
\<close>

definition retryWithNewAccessToken :: "state \<Rightarrow> state \<times> error option" where
  "retryWithNewAccessToken s =
     (let s1 = closeEventSource s
      in if autoreconnect s1 \<and> cachedLoginData s1 \<noteq> None
         then (case retryLogin s1 of
                 (s2, Pending f) \<Rightarrow> (attach_recovery f s2, None)
               | (s2, Rejected e) \<Rightarrow> (s2\<lparr>uncaught := uncaught s2 @ [e]\<rparr>, None))
         else call_eventCallback
                (COULD_NOT_REFRESH_TOKEN
                   ''Token expired, autoconnect is disabled or does not have login credentials. Connection closed.'')
                s1)"

text \<open>
  The response of a login request arrives. The login's own handlers install the token or
  rethrow; then the awaiter goes on: the recovery chain arms the two second delay when
  the login succeeded, and is rejected, unhandled, when it failed.
\<close>

definition login_response :: "fetch_id \<Rightarrow> response \<Rightarrow> state \<Rightarrow> state" where
  "login_response f r s =
     (case map_of (fetches s) f of
        None \<Rightarrow> s
      | Some rq \<Rightarrow>
          (let s1 = s\<lparr>fetches := filter (\<lambda>p. fst p \<noteq> f) (fetches s)\<rparr>
           in case r of
                Resp_id tok \<Rightarrow>
                  (let s2 = s1\<lparr>accessToken := Some tok\<rparr>
                   in case rq_awaiter rq of
                        Caller \<Rightarrow> s2
                      | Recovery \<Rightarrow> set_Timeout RecoveryDelay 2000 s2)
              | Resp_401 e \<Rightarrow>
                  (case rq_awaiter rq of
                     Caller \<Rightarrow> s1
                   | Recovery \<Rightarrow> s1\<lparr>uncaught := uncaught s1 @ [Login_error e]\<rparr>)
              | Resp_failed e \<Rightarrow>
                  (case rq_awaiter rq of
                     Caller \<Rightarrow> s1
                   | Recovery \<Rightarrow> s1\<lparr>uncaught := uncaught s1 @ [Login_error e]\<rparr>)))"

subsection \<open>The listeners\<close>

definition open_listener :: "state \<Rightarrow> state" where
  "open_listener s =
     (let s1 = messageReceived s;
          s2 = set_Interval Poll 1000 s1
      in s2\<lparr>checkerInterval := Some (next_timer s1)\<rparr>)"

text \<open>One \<open>if\<close> of the listener: the test, and \<open>retryWithNewAccessToken\<close> when it holds.\<close>

definition retry_if :: "string \<Rightarrow> json \<Rightarrow> state \<Rightarrow> state \<times> error option" where
  "retry_if sub m s =
     (case token_test sub m of
        Inl e \<Rightarrow> (s, Some e)
      | Inr b \<Rightarrow> (if b then retryWithNewAccessToken s else (s, None)))"

definition message_listener :: "payload \<Rightarrow> state \<Rightarrow> state \<times> error option" where
  "message_listener p s =
     (let s1 = messageReceived s
      in case p of
           No_data \<Rightarrow> (s1, None)
         | Unparsable \<Rightarrow> (s1, Some SyntaxError)
         | Parsed m \<Rightarrow>
             (case call_eventCallback m s1 of
                (s2, Some e) \<Rightarrow> (s2, Some e)
              | (s2, None) \<Rightarrow>
                  (case retry_if ''TOKEN_EXPIRED'' m s2 of
                     (s3, Some e) \<Rightarrow> (s3, Some e)
                   | (s3, None) \<Rightarrow> retry_if ''INVALID_ACCESS_TOKEN'' m s3)))"

definition error_listener :: "state \<Rightarrow> state" where
  "error_listener s =
     (let s1 = clear_Interval (checkerInterval s) s;
          s2 = clear_Timeout (reconnectTimeout s1) s1;
          s3 = closeEventSource s2;
          s4 = set_Timeout Reconnect 2000 s3
      in s4\<lparr>reconnectTimeout := Some (next_timer s3)\<rparr>)"

subsection \<open>Timer callbacks\<close>

definition timer_callback :: "timer_action \<Rightarrow> state \<Rightarrow> state \<times> error option" where
  "timer_callback a s =
     (case a of
        Heartbeat \<Rightarrow>
          (if eventCallback s \<noteq> None then (unhandled (start (eventCallback s) s), None)
           else (s, None))
      | Poll \<Rightarrow>
          (case eventSource s of
             None \<Rightarrow> (s, Some TypeError)
           | Some h \<Rightarrow>
               (if es_readyState (sources s ! h) = CLOSED
                then (unhandled (start (eventCallback s) s), None)
                else (s, None)))
      | Reconnect \<Rightarrow> (unhandled (start (eventCallback s) s), None)
      | RecoveryDelay \<Rightarrow> (unhandled (start (eventCallback s) s), None))"

definition fire :: "timer_id \<Rightarrow> state \<Rightarrow> state" where
  "fire i s =
     (case map_of (timers s) i of
        None \<Rightarrow> s
      | Some t \<Rightarrow>
          (let s1 = (if t_repeat t then s
                     else s\<lparr>timers := filter (\<lambda>p. fst p \<noteq> i) (timers s)\<rparr>)
           in unhandled (timer_callback (t_action t) s1)))"

subsection \<open>Runs\<close>

text \<open>
  What can happen to a session: a call of a method of its interface, an event of an
  EventSource it constructed, a pending timer firing, a login response arriving. The
  transport opens a connection that is connecting, delivers messages on one that is
  open, reports an error on one that is not closed (going on to reconnect, or giving
  up), and may die without telling anybody. An event runs the listener registered
  for it, if there is one.
\<close>

datatype input =
    Call_start "callback option"
  | Call_stop
  | Call_setAccessToken "string option"
  | Call_loginHashed string string
  | Call_hubLogin string string
  | Call_closeEventSource
  | Call_retryWithNewAccessToken
  | Es_open handle
  | Es_message handle payload
  | Es_error handle bool
  | Es_dies handle
  | Timer_fires timer_id
  | Fetch_responds fetch_id response

definition set_readyState :: "handle \<Rightarrow> readyState \<Rightarrow> state \<Rightarrow> state" where
  "set_readyState h r s = s\<lparr>sources := at_handle h (\<lambda>e. e\<lparr>es_readyState := r\<rparr>) (sources s)\<rparr>"

fun step :: "input \<Rightarrow> state \<Rightarrow> state" where
  "step (Call_start cb) s = fst (start cb s)"
| "step Call_stop s = stop s"
| "step (Call_setAccessToken t) s = setAccessToken t s"
| "step (Call_loginHashed e p) s = fst (loginHashed e p s)"
| "step (Call_hubLogin i t) s = fst (hubLogin i t s)"
| "step Call_closeEventSource s = closeEventSource s"
| "step Call_retryWithNewAccessToken s = fst (retryWithNewAccessToken s)"
| "step (Es_open h) s =
     (if h < length (sources s) \<and> es_readyState (sources s ! h) = CONNECTING
      then (let s1 = set_readyState h OPEN s
            in if on_open (sources s1 ! h) \<noteq> None then open_listener s1 else s1)
      else s)"
| "step (Es_message h p) s =
     (if h < length (sources s) \<and> es_readyState (sources s ! h) = OPEN
         \<and> on_message (sources s ! h) \<noteq> None
      then unhandled (message_listener p s)
      else s)"
| "step (Es_error h again) s =
     (if h < length (sources s) \<and> es_readyState (sources s ! h) \<noteq> CLOSED
      then (let s1 = set_readyState h (if again then CONNECTING else CLOSED) s
            in if on_error (sources s1 ! h) \<noteq> None then error_listener s1 else s1)
      else s)"
| "step (Es_dies h) s =
     (if h < length (sources s) then set_readyState h CLOSED s else s)"
| "step (Timer_fires i) s = fire i s"
| "step (Fetch_responds f r) s = login_response f r s"

fun run :: "input list \<Rightarrow> state \<Rightarrow> state" where
  "run [] s = s"
| "run (i # is) s = run is (step i s)"

subsection \<open>Notions used in the statements\<close>

text \<open>What the three \<open>removeEventListener\<close> calls and \<open>close\<close> do to an EventSource.\<close>

definition detach :: "closure \<Rightarrow> event_source \<Rightarrow> event_source" where
  "detach l =
     (\<lambda>e. (drop_listener L_error l (drop_listener L_message l (drop_listener L_open l e)))
           \<lparr>es_readyState := CLOSED\<rparr>)"

text \<open>What the three \<open>addEventListener\<close> calls do to it.\<close>

definition attach :: "closure \<Rightarrow> event_source \<Rightarrow> event_source" where
  "attach l =
     (\<lambda>e. set_listener L_error (Some l)
            (set_listener L_message (Some l) (set_listener L_open (Some l) e)))"

text \<open>The timers that survive \<open>_clearPendingActions\<close>, and the calls it makes.\<close>

definition unarmed :: "state \<Rightarrow> (timer_id \<times> timer) list" where
  "unarmed s =
     filter (\<lambda>p. Some (fst p) \<noteq> checkerInterval s \<and> Some (fst p) \<noteq> reconnectTimeout s
                 \<and> Some (fst p) \<noteq> pingTimeout s) (timers s)"

definition clears :: "state \<Rightarrow> effect list" where
  "clears s =
     [E_clearInterval (checkerInterval s), E_clearTimeout (reconnectTimeout s),
      E_clearTimeout (pingTimeout s)]"

definition teardown :: "handle \<Rightarrow> closure \<Rightarrow> effect list" where
  "teardown h l =
     [E_removeEventListener h L_open l, E_removeEventListener h L_message l,
      E_removeEventListener h L_error l, E_close h]"

text \<open>An EventSource the session is done with: closed, and no listener left on it.\<close>

definition closed_source :: "event_source \<Rightarrow> bool" where
  "closed_source e \<longleftrightarrow>
     es_readyState e = CLOSED \<and> on_open e = None \<and> on_message e = None \<and> on_error e = None"

text \<open>
  The handle, when not null, refers to an EventSource that carries the current three
  listeners; every other EventSource ever constructed is closed.
\<close>

definition conn_inv :: "state \<Rightarrow> bool" where
  "conn_inv s \<longleftrightarrow>
     (\<forall>h. eventSource s = Some h \<longrightarrow>
          h < length (sources s)
          \<and> on_open (sources s ! h) = Some (listeners s)
          \<and> on_message (sources s ! h) = Some (listeners s)
          \<and> on_error (sources s ! h) = Some (listeners s))
     \<and> (\<forall>h < length (sources s). eventSource s \<noteq> Some h \<longrightarrow> closed_source (sources s ! h))"

text \<open>
  Timer identifiers are not reused, and the pending timers of the three kinds the
  session keeps a handle of are the ones its fields name.
\<close>

definition timer_inv :: "state \<Rightarrow> bool" where
  "timer_inv s \<longleftrightarrow>
     distinct (map fst (timers s))
     \<and> (\<forall>p \<in> set (timers s).
          fst p < next_timer s
          \<and> (t_action (snd p) = Heartbeat \<longrightarrow>
                pingTimeout s = Some (fst p) \<and> t_delay (snd p) = 40000 \<and> \<not> t_repeat (snd p))
          \<and> (t_action (snd p) = Poll \<longrightarrow> checkerInterval s = Some (fst p))
          \<and> (t_action (snd p) = Reconnect \<longrightarrow> reconnectTimeout s = Some (fst p)))"

text \<open>The liveness poll is pending only for a connection that has opened.\<close>

definition poll_inv :: "state \<Rightarrow> bool" where
  "poll_inv s \<longleftrightarrow>
     (\<forall>p \<in> set (timers s). t_action (snd p) = Poll \<longrightarrow>
        (\<exists>h. eventSource s = Some h \<and> es_readyState (sources s ! h) \<noteq> CONNECTING))"

definition session_inv :: "state \<Rightarrow> bool" where
  "session_inv s \<longleftrightarrow> conn_inv s \<and> timer_inv s \<and> poll_inv s"


text \<open>
  A value that \<open>==\<close> finds equal to the word \<open>t\<close>: the string \<open>t\<close>, or an array of one
  element that is again such a value.
\<close>

fun wraps :: "string \<Rightarrow> json \<Rightarrow> bool" where
  "wraps t (JStr x) = (x = t)"
| "wraps t (JArr [w]) = wraps t w"
| "wraps t _ = False"

text \<open>
  The protocol signal of an expired or invalid token: an object whose \<open>type\<close> is the
  string \<open>system\<close>, whose \<open>code\<close> is the number 401, and whose \<open>subType\<close> is, or wraps,
  one of the two words.
\<close>

fun token_signal :: "json \<Rightarrow> bool" where
  "token_signal (JObj ps) =
     (map_of ps ''type'' = Some (JStr ''system'') \<and> map_of ps ''code'' = Some (JNum 401)
      \<and> (case map_of ps ''subType'' of
            None \<Rightarrow> False
          | Some v \<Rightarrow> wraps ''TOKEN_EXPIRED'' v \<or> wraps ''INVALID_ACCESS_TOKEN'' v))"
| "token_signal _ = False"


text \<open>A word of capitals and underscores, as the two constants are.\<close>

definition word :: "string \<Rightarrow> bool" where
  "word t \<longleftrightarrow> t \<noteq> [] \<and> set t \<subseteq> set ''ABCDEFGHIJKLMNOPQRSTUVWXYZ_''"

text \<open>The cached login data, when there is one, has exactly one of its two entries.\<close>

definition one_credential :: "state \<Rightarrow> bool" where
  "one_credential s \<longleftrightarrow>
     (case cachedLoginData s of
        None \<Rightarrow> True
      | Some c \<Rightarrow> (hub c = None) \<noteq> (user c = None))"

text \<open>What the constructor fixes for the life of the session.\<close>

definition config_of :: "state \<Rightarrow> bool \<times> string \<times> string \<times> string \<times> string option" where
  "config_of s =
     (requireAuthentication s, sse_url s, login_url s, hubLogin_baseUrl s, projectName s)"

text \<open>The events the caller's callback has been given, oldest first.\<close>

fun delivered :: "effect list \<Rightarrow> (callback \<times> json) list" where
  "delivered [] = []"
| "delivered (E_callback cb ev # es) = (cb, ev) # delivered es"
| "delivered (_ # es) = delivered es"

definition TOKEN_EXPIRED :: json where
  "TOKEN_EXPIRED =
     JObj [(''type'', JStr ''system''), (''subType'', JStr ''TOKEN_EXPIRED''),
           (''code'', JNum 401), (''message'', JStr ''Token expired'')]"

text \<open>The same signal with its \<open>subType\<close> inside an array.\<close>

definition TOKEN_EXPIRED_in_array :: json where
  "TOKEN_EXPIRED_in_array =
     JObj [(''type'', JStr ''system''), (''subType'', JArr [JStr ''TOKEN_EXPIRED'']),
           (''code'', JNum 401)]"

section \<open>Properties\<close>

subsection \<open>What the methods do, field by field\<close>

lemma filter_filter3: "filter P (filter Q (filter R xs)) = filter (\<lambda>x. R x \<and> Q x \<and> P x) xs"
  by (induction xs) auto

lemma at_handle_twice [simp]: "at_handle h g (at_handle h f xs) = at_handle h (\<lambda>e. g (f e)) xs"
  by (simp add: at_handle_def)

lemma length_at_handle [simp]: "length (at_handle h f xs) = length xs"
  by (simp add: at_handle_def)

lemma nth_at_handle:
  "i < length xs \<Longrightarrow> at_handle h f xs ! i = (if i = h then f (xs ! i) else xs ! i)"
  by (simp add: at_handle_def)

lemma at_handle_new [simp]: "at_handle (length xs) f (xs @ [e]) = xs @ [f e]"
  by (simp add: at_handle_def)

lemma unarmed_cong:
  "timers t = timers s \<Longrightarrow> checkerInterval t = checkerInterval s \<Longrightarrow>
   reconnectTimeout t = reconnectTimeout s \<Longrightarrow> pingTimeout t = pingTimeout s \<Longrightarrow>
   unarmed t = unarmed s"
  by (simp add: unarmed_def)

lemma unarmed_idem:
  "timers t = unarmed s \<Longrightarrow> checkerInterval t = checkerInterval s \<Longrightarrow>
   reconnectTimeout t = reconnectTimeout s \<Longrightarrow> pingTimeout t = pingTimeout s \<Longrightarrow>
   unarmed t = unarmed s"
  by (simp add: unarmed_def)

lemma clears_cong:
  "checkerInterval t = checkerInterval s \<Longrightarrow> reconnectTimeout t = reconnectTimeout s \<Longrightarrow>
   pingTimeout t = pingTimeout s \<Longrightarrow> clears t = clears s"
  by (simp add: clears_def)

lemma clearPendingActions_eq:
  "clearPendingActions s = s\<lparr>timers := unarmed s, trace := trace s @ clears s\<rparr>"
  by (simp add: clearPendingActions_def Let_def clear_Timeout_def clear_Interval_def
      unarmed_def clears_def filter_filter3)

lemma closeEventSource_eq:
  "closeEventSource s =
     (case eventSource s of
        None \<Rightarrow> s\<lparr>timers := unarmed s, trace := trace s @ clears s\<rparr>
      | Some h \<Rightarrow>
          s\<lparr>timers := unarmed s,
            sources := at_handle h (detach (listeners s)) (sources s),
            eventSource := None,
            trace := trace s @ clears s @ teardown h (listeners s)\<rparr>)"
  by (simp add: closeEventSource_def clearPendingActions_eq Let_def removeEventListener_def
      close_def detach_def teardown_def split: option.splits)

lemma snd_start:
  "snd (start cb s) =
     (if accessToken s = None \<and> requireAuthentication s then Some AccessToken_required else None)"
  by (simp add: start_def Let_def)

lemma start_rejected:
  "accessToken s = None \<and> requireAuthentication s \<Longrightarrow> fst (start cb s) = s"
  by (simp add: start_def)

lemma start_eq:
  assumes "\<not> (accessToken s = None \<and> requireAuthentication s)"
  shows "fst (start cb s) =
     s\<lparr>eventCallback := cb,
        timers := unarmed s,
        sources := (case eventSource s of None \<Rightarrow> sources s
                    | Some h \<Rightarrow> at_handle h (detach (listeners s)) (sources s))
                   @ [attach (next_closure s)
                       \<lparr>es_url = start_url s, es_readyState = CONNECTING,
                        on_open = None, on_message = None, on_error = None\<rparr>],
        eventSource := Some (length (sources s)),
        listeners := next_closure s,
        next_closure := Suc (next_closure s),
        trace := trace s @ clears s
                 @ (case eventSource s of None \<Rightarrow> []
                    | Some h \<Rightarrow> clears s @ teardown h (listeners s))
                 @ [E_new_EventSource (length (sources s)) (start_url s),
                    E_addEventListener (length (sources s)) L_open (next_closure s),
                    E_addEventListener (length (sources s)) L_message (next_closure s),
                    E_addEventListener (length (sources s)) L_error (next_closure s)]\<rparr>"
proof -
  let ?s1 = "s\<lparr>eventCallback := cb\<rparr>"
  let ?s2 = "s\<lparr>eventCallback := cb, timers := unarmed s, trace := trace s @ clears s\<rparr>"
  from assms have g: "(accessToken s = None \<and> requireAuthentication s) = False"
    by simp
  have u1: "unarmed ?s1 = unarmed s" by (rule unarmed_cong) simp_all
  have c1: "clears ?s1 = clears s" by (rule clears_cong) simp_all
  have u2: "unarmed ?s2 = unarmed s" by (rule unarmed_idem) simp_all
  have c2: "clears ?s2 = clears s" by (rule clears_cong) simp_all
  show ?thesis
  proof (cases "eventSource s")
    case None
    then show ?thesis
      by (intro state.equality;
          simp add: start_def g clearPendingActions_eq u1 c1 Let_def new_EventSource_def
            addEventListener_def attach_def start_url_def)
  next
    case (Some h)
    then show ?thesis
      by (intro state.equality;
          simp add: start_def g clearPendingActions_eq closeEventSource_eq u1 c1 u2 c2 Let_def
            new_EventSource_def addEventListener_def attach_def start_url_def)
  qed
qed

lemma messageReceived_eq:
  "messageReceived s =
     s\<lparr>timers := filter (\<lambda>p. Some (fst p) \<noteq> pingTimeout s) (timers s)
                  @ [(next_timer s, \<lparr>t_action = Heartbeat, t_delay = 40000, t_repeat = False\<rparr>)],
       next_timer := Suc (next_timer s),
       pingTimeout := Some (next_timer s),
       trace := trace s @ [E_clearTimeout (pingTimeout s), E_setTimeout (next_timer s) Heartbeat 40000]\<rparr>"
  by (simp add: messageReceived_def Let_def clear_Timeout_def set_Timeout_def)

lemma open_listener_eq:
  "open_listener s =
     s\<lparr>timers := filter (\<lambda>p. Some (fst p) \<noteq> pingTimeout s) (timers s)
                  @ [(next_timer s, \<lparr>t_action = Heartbeat, t_delay = 40000, t_repeat = False\<rparr>),
                     (Suc (next_timer s), \<lparr>t_action = Poll, t_delay = 1000, t_repeat = True\<rparr>)],
       next_timer := Suc (Suc (next_timer s)),
       pingTimeout := Some (next_timer s),
       checkerInterval := Some (Suc (next_timer s)),
       trace := trace s @ [E_clearTimeout (pingTimeout s), E_setTimeout (next_timer s) Heartbeat 40000,
                           E_setInterval (Suc (next_timer s)) Poll 1000]\<rparr>"
  by (simp add: open_listener_def messageReceived_eq Let_def set_Interval_def)

lemma error_listener_eq:
  "error_listener s =
     s\<lparr>timers := unarmed s
                  @ [(next_timer s, \<lparr>t_action = Reconnect, t_delay = 2000, t_repeat = False\<rparr>)],
       next_timer := Suc (next_timer s),
       reconnectTimeout := Some (next_timer s),
       sources := (case eventSource s of None \<Rightarrow> sources s
                   | Some h \<Rightarrow> at_handle h (detach (listeners s)) (sources s)),
       eventSource := None,
       trace := trace s @ [E_clearInterval (checkerInterval s), E_clearTimeout (reconnectTimeout s)]
                @ clears s
                @ (case eventSource s of None \<Rightarrow> [] | Some h \<Rightarrow> teardown h (listeners s))
                @ [E_setTimeout (next_timer s) Reconnect 2000]\<rparr>"
proof -
  let ?s2 = "s\<lparr>timers := filter (\<lambda>x. Some (fst x) \<noteq> checkerInterval s
                                      \<and> Some (fst x) \<noteq> reconnectTimeout s) (timers s),
               trace := trace s @ [E_clearInterval (checkerInterval s),
                                   E_clearTimeout (reconnectTimeout s)]\<rparr>"
  have u: "unarmed ?s2 = unarmed s"
    by (auto simp add: unarmed_def intro: filter_cong)
  have c: "clears ?s2 = clears s"
    by (simp add: clears_def)
  have e: "clear_Timeout (reconnectTimeout (clear_Interval (checkerInterval s) s))
             (clear_Interval (checkerInterval s) s) = ?s2"
    by (simp add: clear_Timeout_def clear_Interval_def)
  show ?thesis
    unfolding error_listener_def Let_def e
    by (cases "eventSource s"; intro state.equality;
        simp add: closeEventSource_eq u c set_Timeout_def)
qed


subsection \<open>The token test\<close>

lemma digit_char_digit: "d < 10 \<Longrightarrow> digit_char d \<in> set ''0123456789''"
  unfolding digit_char_def by (rule nth_mem) simp

lemma digits_chars: "set (digits n) \<subseteq> set ''0123456789''"
proof (induction n rule: digits.induct)
  case (1 n)
  show ?case
  proof (cases "n < 10")
    case True
    then show ?thesis
      using digit_char_digit [of n] by (subst digits.simps) simp
  next
    case False
    then have "set (digits (n div 10)) \<subseteq> set ''0123456789''" by (rule 1)
    moreover have "digit_char (n mod 10) \<in> set ''0123456789''"
      by (rule digit_char_digit) simp
    ultimately show ?thesis
      using False by (subst digits.simps) simp
  qed
qed

lemma number_text_chars: "set (number_text n) \<subseteq> set ''-0123456789''"
proof -
  have e: "set ''-0123456789'' = insert CHR ''-'' (set ''0123456789'')"
    by (rule list.set(2))
  show ?thesis
  proof (cases "n < 0")
    case True
    then have "number_text n = CHR ''-'' # digits (nat (- n))"
      by (simp only: number_text_def if_True)
    then have "set (number_text n) = insert CHR ''-'' (set (digits (nat (- n))))"
      by (simp only: list.set(2))
    with digits_chars [of "nat (- n)"] show ?thesis
      unfolding e by blast
  next
    case False
    then have "set (number_text n) = set (digits (nat n))"
      by (simp only: number_text_def if_False)
    with digits_chars [of "nat n"] show ?thesis
      unfolding e by blast
  qed
qed

lemma word_has_no:
  "word t \<Longrightarrow> c \<notin> set ''ABCDEFGHIJKLMNOPQRSTUVWXYZ_'' \<Longrightarrow> c \<notin> set t"
  unfolding word_def by blast

lemma word_not_number: "word t \<Longrightarrow> number_text n \<noteq> t"
proof
  assume w: "word t" and e: "number_text n = t"
  from w have "t \<noteq> []" unfolding word_def by blast
  then obtain c where c: "c \<in> set t" by (cases t) auto
  with w have "c \<in> set ''ABCDEFGHIJKLMNOPQRSTUVWXYZ_''"
    using word_has_no by blast
  moreover from c e have "c \<in> set ''-0123456789''"
    using number_text_chars [of n] by blast
  ultimately have "c \<in> set ''ABCDEFGHIJKLMNOPQRSTUVWXYZ_'' \<inter> set ''-0123456789''" by blast
  moreover have "set ''ABCDEFGHIJKLMNOPQRSTUVWXYZ_'' \<inter> set ''-0123456789'' = {}" by simp
  ultimately show False by blast
qed

lemma word_plain:
  assumes "word t"
  shows "t \<noteq> []" "t \<noteq> ''null''" "t \<noteq> ''true''" "t \<noteq> ''false''" "t \<noteq> ''[object Object]''"
    "CHR '','' \<notin> set t"
proof -
  show "t \<noteq> []" using assms unfolding word_def by blast
  have n: "CHR ''n'' \<notin> set t" by (rule word_has_no [OF assms]) simp
  have e: "CHR ''e'' \<notin> set t" by (rule word_has_no [OF assms]) simp
  show "t \<noteq> ''null''" using n by auto
  show "t \<noteq> ''true''" using e by auto
  show "t \<noteq> ''false''" using e by auto
  show "t \<noteq> ''[object Object]''" using e by auto
  show "CHR '','' \<notin> set t" by (rule word_has_no [OF assms]) simp
qed

lemma words: "word ''TOKEN_EXPIRED''" "word ''INVALID_ACCESS_TOKEN''"
  by (simp_all add: word_def)

lemma wraps_array: "wraps t (JArr xs) = (\<exists>u. xs = [u] \<and> wraps t u)"
proof (cases xs)
  case Nil
  then show ?thesis by simp
next
  case (Cons x ys)
  then show ?thesis by (cases ys) simp_all
qed

lemma text_is_word:
  assumes w: "word t"
  shows "(js_ToString v = Inr t) = wraps t v"
    and "(js_join xs = Inr t) = (\<exists>u. xs = [u] \<and> wraps t u)"
proof (induction v and xs rule: js_ToString_js_join.induct)
  case (5 xs)
  then show ?case by (simp add: wraps_array)
next
  case (8 x xs)
  show ?case
  proof (cases "xs = []")
    case True
    show ?thesis
    proof (cases "x = JNull")
      case True
      with \<open>xs = []\<close> word_plain(1) [OF w] show ?thesis by auto
    next
      case False
      with \<open>xs = []\<close> 8(1) show ?thesis by (auto split: sum.splits)
    qed
  next
    case False
    have "a @ '','' @ b \<noteq> t" for a b
      using word_plain(6) [OF w] by auto
    with False show ?thesis by (auto split: sum.splits)
  qed
qed (use word_plain [OF w] word_not_number [OF w] in \<open>auto\<close>)

lemma loose_eq_word:
  assumes w: "word t"
  shows "(loose_eq v t = Inr True) = (case v of None \<Rightarrow> False | Some u \<Rightarrow> wraps t u)"
proof (cases v)
  case None
  then show ?thesis by simp
next
  case (Some u)
  have r: "((case r of Inl e \<Rightarrow> Inl e | Inr x \<Rightarrow> Inr (x = t)) = Inr True) = (r = Inr t)"
    for r :: "error + string"
    by (cases r) auto
  have "(loose_eq (Some u) t = Inr True) = wraps t u"
  proof (cases u)
    case (JArr xs)
    show ?thesis
      unfolding JArr by (simp only: loose_eq.simps r text_is_word(1) [OF w])
  next
    case (JObj ps)
    show ?thesis
      unfolding JObj by (simp only: loose_eq.simps r text_is_word(1) [OF w])
  qed simp_all
  with Some show ?thesis by simp
qed

lemma loose_eq_error: "loose_eq v a = Inl e \<Longrightarrow> loose_eq v b = Inl e"
  by (cases "(v, a)" rule: loose_eq.cases) (auto split: sum.splits if_splits)

lemma token_test_error: "token_test a m = Inl e \<Longrightarrow> token_test b m = Inl e"
  by (cases m) (auto simp add: token_test_def dest: loose_eq_error split: if_splits)

lemma token_test_word:
  "word t \<Longrightarrow>
   (token_test t m = Inr True) =
     (case m of
        JObj ps \<Rightarrow>
          map_of ps ''type'' = Some (JStr ''system'') \<and> map_of ps ''code'' = Some (JNum 401)
          \<and> (case map_of ps ''subType'' of None \<Rightarrow> False | Some v \<Rightarrow> wraps t v)
      | _ \<Rightarrow> False)"
  by (cases m) (auto simp add: token_test_def loose_eq_word split: option.splits)

lemma wraps_one: "wraps a v \<Longrightarrow> wraps b v \<Longrightarrow> a = b"
  by (induction a v rule: wraps.induct) auto

lemma token_signal_tests:
  "token_signal m =
     (token_test ''TOKEN_EXPIRED'' m = Inr True \<or> token_test ''INVALID_ACCESS_TOKEN'' m = Inr True)"
  by (cases m) (auto simp add: token_test_word words split: option.splits)

lemma token_tests_exclusive:
  "\<not> (token_test ''TOKEN_EXPIRED'' m = Inr True \<and> token_test ''INVALID_ACCESS_TOKEN'' m = Inr True)"
proof
  assume a: "token_test ''TOKEN_EXPIRED'' m = Inr True \<and> token_test ''INVALID_ACCESS_TOKEN'' m = Inr True"
  then obtain ps v where "wraps ''TOKEN_EXPIRED'' v" "wraps ''INVALID_ACCESS_TOKEN'' v"
    by (cases m) (auto simp add: token_test_word words split: option.splits)
  then have "''TOKEN_EXPIRED'' = ''INVALID_ACCESS_TOKEN''" by (rule wraps_one)
  then show False by simp
qed

subsection \<open>What the message listener comes to\<close>

lemma eventCallback_closeEventSource [simp]:
  "eventCallback (closeEventSource s) = eventCallback s"
  by (simp add: closeEventSource_eq split: option.splits)

lemma snd_retryWithNewAccessToken:
  "eventCallback s \<noteq> None \<Longrightarrow> snd (retryWithNewAccessToken s) = None"
  by (auto simp add: retryWithNewAccessToken_def Let_def call_eventCallback_def
      split: prod.splits promise.splits option.splits)

lemma message_listener_parsed:
  assumes cb: "eventCallback s = Some cb"
  shows "token_signal m \<Longrightarrow>
           message_listener (Parsed m) s
             = retryWithNewAccessToken (invoke cb m (messageReceived s))"
    and "\<not> token_signal m \<Longrightarrow>
           fst (message_listener (Parsed m) s) = invoke cb m (messageReceived s)"
proof -
  let ?s1 = "messageReceived s"
  let ?s2 = "invoke cb m ?s1"
  let ?T = "token_test ''TOKEN_EXPIRED'' m"
  let ?I = "token_test ''INVALID_ACCESS_TOKEN'' m"
  have cb1: "eventCallback ?s1 = Some cb"
    using cb by (simp add: messageReceived_eq)
  then have cb2: "eventCallback ?s2 \<noteq> None"
    by (simp add: invoke_def)
  have call: "call_eventCallback m ?s1 = (?s2, None)"
    by (simp add: call_eventCallback_def cb1)
  obtain s3 where s3: "retryWithNewAccessToken ?s2 = (s3, None)"
    using snd_retryWithNewAccessToken [OF cb2] by (cases "retryWithNewAccessToken ?s2") simp
  have ml: "message_listener (Parsed m) s =
      (case retry_if ''TOKEN_EXPIRED'' m ?s2 of
         (x, Some e) \<Rightarrow> (x, Some e)
       | (x, None) \<Rightarrow> retry_if ''INVALID_ACCESS_TOKEN'' m x)"
    by (simp add: message_listener_def Let_def call)
  have both: "message_listener (Parsed m) s
                = (if token_signal m then retryWithNewAccessToken ?s2
                   else (?s2, case ?T of Inl e \<Rightarrow> Some e | Inr b \<Rightarrow> None))"
  proof (cases ?T)
    case (Inl e)
    then have "?I = Inl e" by (rule token_test_error)
    with Inl have "\<not> token_signal m" by (simp add: token_signal_tests)
    with Inl show ?thesis by (simp add: ml retry_if_def)
  next
    case (Inr b)
    have noerr: "?I \<noteq> Inl e" for e
    proof
      assume "?I = Inl e"
      then have "?T = Inl e" by (rule token_test_error)
      with Inr show False by simp
    qed
    then obtain c where c: "?I = Inr c" by (cases ?I) auto
    show ?thesis
    proof (cases b)
      case True
      with Inr c token_tests_exclusive [of m] have "\<not> c" by auto
      with True Inr c show ?thesis
        by (simp add: ml retry_if_def s3 token_signal_tests)
    next
      case False
      with Inr c show ?thesis
        by (simp add: ml retry_if_def token_signal_tests)
    qed
  qed
  show "message_listener (Parsed m) s = retryWithNewAccessToken ?s2" if "token_signal m"
    using that both by simp
  show "fst (message_listener (Parsed m) s) = ?s2" if "\<not> token_signal m"
    using that both by simp
qed

lemma message_listener_no_callback:
  "eventCallback s = None \<Longrightarrow>
   message_listener (Parsed m) s = (messageReceived s, Some TypeError)"
  by (simp add: message_listener_def Let_def call_eventCallback_def messageReceived_eq)

lemma message_listener_no_event:
  "message_listener No_data s = (messageReceived s, None)"
  "message_listener Unparsable s = (messageReceived s, Some SyntaxError)"
  by (simp_all add: message_listener_def Let_def)

text \<open>Whatever the message, the listener ends in one of three states.\<close>

lemma message_listener_ends:
  "fst (message_listener p s) = messageReceived s
   \<or> (\<exists>cb m. p = Parsed m \<and> eventCallback s = Some cb
        \<and> (fst (message_listener p s) = invoke cb m (messageReceived s)
           \<or> fst (message_listener p s)
               = fst (retryWithNewAccessToken (invoke cb m (messageReceived s)))))"
proof (cases p)
  case (Parsed m)
  show ?thesis
  proof (cases "eventCallback s")
    case None
    then show ?thesis by (simp add: Parsed message_listener_no_callback)
  next
    case (Some cb)
    show ?thesis
      using message_listener_parsed [OF Some, of m] Some Parsed
      by (cases "token_signal m") auto
  qed
qed (simp_all add: message_listener_no_event)

subsection \<open>The invariants\<close>

lemma unarmed_only_recovery:
  "timer_inv s \<Longrightarrow> p \<in> set (unarmed s) \<Longrightarrow> t_action (snd p) = RecoveryDelay"
  by (cases "t_action (snd p)") (auto simp add: timer_inv_def unarmed_def)

lemma unarmed_subset: "set (unarmed s) \<subseteq> set (timers s)"
  by (auto simp add: unarmed_def)

lemma distinct_unarmed: "distinct (map fst (timers s)) \<Longrightarrow> distinct (map fst (unarmed s))"
  by (simp add: unarmed_def distinct_map_filter)

text \<open>The invariants look at a few fields only.\<close>

lemma conn_inv_cong:
  "eventSource t = eventSource s \<Longrightarrow> sources t = sources s \<Longrightarrow> listeners t = listeners s \<Longrightarrow>
   conn_inv t = conn_inv s"
  by (simp add: conn_inv_def)

lemma timer_inv_cong:
  "timers t = timers s \<Longrightarrow> next_timer t = next_timer s \<Longrightarrow> pingTimeout t = pingTimeout s \<Longrightarrow>
   checkerInterval t = checkerInterval s \<Longrightarrow> reconnectTimeout t = reconnectTimeout s \<Longrightarrow>
   timer_inv t = timer_inv s"
  by (simp add: timer_inv_def)

lemma poll_inv_cong:
  "timers t = timers s \<Longrightarrow> eventSource t = eventSource s \<Longrightarrow> sources t = sources s \<Longrightarrow>
   poll_inv t = poll_inv s"
  by (simp add: poll_inv_def)

lemma inv_cong:
  "eventSource t = eventSource s \<Longrightarrow> sources t = sources s \<Longrightarrow> listeners t = listeners s \<Longrightarrow>
   timers t = timers s \<Longrightarrow> next_timer t = next_timer s \<Longrightarrow> pingTimeout t = pingTimeout s \<Longrightarrow>
   checkerInterval t = checkerInterval s \<Longrightarrow> reconnectTimeout t = reconnectTimeout s \<Longrightarrow>
   session_inv t = session_inv s"
  by (simp add: session_inv_def conn_inv_cong [of t s] timer_inv_cong [of t s] poll_inv_cong [of t s])

lemma closed_detach:
  "on_open e = Some l \<Longrightarrow> on_message e = Some l \<Longrightarrow> on_error e = Some l \<Longrightarrow>
   closed_source (detach l e)"
  by (simp add: closed_source_def detach_def drop_listener_def)

lemma sources_after_close:
  assumes "conn_inv s" and "i < length (sources s)"
  shows "closed_source
           ((case eventSource s of None \<Rightarrow> sources s
             | Some h \<Rightarrow> at_handle h (detach (listeners s)) (sources s)) ! i)"
proof (cases "eventSource s")
  case None
  with assms show ?thesis by (simp add: conn_inv_def)
next
  case (Some h)
  with assms show ?thesis
    by (auto simp add: conn_inv_def nth_at_handle closed_detach)
qed

lemma inv_closeEventSource: "session_inv s \<Longrightarrow> session_inv (closeEventSource s)"
proof -
  assume a: "session_inv s"
  then have c: "conn_inv s" and t: "timer_inv s" by (simp_all add: session_inv_def)
  let ?s' = "closeEventSource s"
  have es: "eventSource ?s' = None"
    by (simp add: closeEventSource_eq split: option.splits)
  have so: "sources ?s' = (case eventSource s of None \<Rightarrow> sources s
             | Some h \<Rightarrow> at_handle h (detach (listeners s)) (sources s))"
    by (simp add: closeEventSource_eq split: option.splits)
  have ti: "timers ?s' = unarmed s"
    by (simp add: closeEventSource_eq split: option.splits)
  have fr: "next_timer ?s' = next_timer s" "pingTimeout ?s' = pingTimeout s"
    "checkerInterval ?s' = checkerInterval s" "reconnectTimeout ?s' = reconnectTimeout s"
    by (simp_all add: closeEventSource_eq split: option.splits)
  have len: "length (sources ?s') = length (sources s)"
    by (simp add: so split: option.splits)
  have "conn_inv ?s'"
    using sources_after_close [OF c] by (simp add: conn_inv_def es len so [symmetric])
  moreover have "timer_inv ?s'"
    using t unarmed_only_recovery [OF t] unarmed_subset [of s]
    by (auto simp add: timer_inv_def ti fr distinct_unarmed)
  moreover have "poll_inv ?s'"
    using unarmed_only_recovery [OF t] by (auto simp add: poll_inv_def ti)
  ultimately show ?thesis by (simp add: session_inv_def)
qed

lemma inv_start: "session_inv s \<Longrightarrow> session_inv (fst (start cb s))"
proof (cases "accessToken s = None \<and> requireAuthentication s")
  case True
  assume "session_inv s"
  with True show ?thesis by (simp add: start_rejected)
next
  case False
  assume a: "session_inv s"
  then have c: "conn_inv s" and t: "timer_inv s" by (simp_all add: session_inv_def)
  let ?s' = "fst (start cb s)"
  let ?old = "case eventSource s of None \<Rightarrow> sources s
              | Some h \<Rightarrow> at_handle h (detach (listeners s)) (sources s)"
  let ?new = "attach (next_closure s)
                \<lparr>es_url = start_url s, es_readyState = CONNECTING,
                 on_open = None, on_message = None, on_error = None\<rparr>"
  have es: "eventSource ?s' = Some (length (sources s))"
    and so: "sources ?s' = ?old @ [?new]"
    and li: "listeners ?s' = next_closure s"
    and ti: "timers ?s' = unarmed s"
    and fr: "next_timer ?s' = next_timer s" "pingTimeout ?s' = pingTimeout s"
      "checkerInterval ?s' = checkerInterval s" "reconnectTimeout ?s' = reconnectTimeout s"
    by (simp_all add: start_eq [OF False])
  have len: "length ?old = length (sources s)"
    by (simp split: option.splits)
  have new: "on_open ?new = Some (next_closure s)" "on_message ?new = Some (next_closure s)"
    "on_error ?new = Some (next_closure s)" "es_readyState ?new = CONNECTING"
    by (simp_all add: attach_def)
  have "conn_inv ?s'"
    unfolding conn_inv_def es so li
    using sources_after_close [OF c] new
    by (auto simp add: len nth_append less_Suc_eq simp del: set_listener.simps)
  moreover have "timer_inv ?s'"
    using t unarmed_only_recovery [OF t] unarmed_subset [of s]
    by (auto simp add: timer_inv_def ti fr distinct_unarmed)
  moreover have "poll_inv ?s'"
    using unarmed_only_recovery [OF t] by (auto simp add: poll_inv_def ti)
  ultimately show ?thesis by (simp add: session_inv_def)
qed

lemma fresh_timer: "timer_inv s \<Longrightarrow> next_timer s \<notin> fst ` set (timers s)"
  by (auto simp add: timer_inv_def)

lemma inv_messageReceived: "session_inv s \<Longrightarrow> session_inv (messageReceived s)"
proof -
  assume a: "session_inv s"
  then have c: "conn_inv s" and t: "timer_inv s" and p: "poll_inv s"
    by (simp_all add: session_inv_def)
  let ?s' = "messageReceived s"
  have "conn_inv ?s' = conn_inv s"
    by (rule conn_inv_cong) (simp_all add: messageReceived_eq)
  moreover have "timer_inv ?s'"
    using t fresh_timer [OF t]
    by (auto simp add: timer_inv_def messageReceived_eq distinct_map_filter less_Suc_eq)
  moreover have "poll_inv ?s'"
    using p by (fastforce simp add: poll_inv_def messageReceived_eq)
  ultimately show ?thesis using c by (simp add: session_inv_def)
qed

lemma no_poll_while_connecting:
  "poll_inv s \<Longrightarrow> eventSource s = Some h \<Longrightarrow> es_readyState (sources s ! h) = CONNECTING \<Longrightarrow>
   p \<in> set (timers s) \<Longrightarrow> t_action (snd p) \<noteq> Poll"
  by (auto simp add: poll_inv_def)

lemma listened_is_current:
  "conn_inv s \<Longrightarrow> h < length (sources s) \<Longrightarrow> \<not> closed_source (sources s ! h) \<Longrightarrow>
   eventSource s = Some h"
  by (auto simp add: conn_inv_def)

lemma inv_Es_open: "session_inv s \<Longrightarrow> session_inv (step (Es_open h) s)"
proof (cases "h < length (sources s) \<and> es_readyState (sources s ! h) = CONNECTING")
  case False
  assume "session_inv s"
  with False show ?thesis by auto
next
  case True
  assume a: "session_inv s"
  then have c: "conn_inv s" and t: "timer_inv s" and p: "poll_inv s"
    by (simp_all add: session_inv_def)
  from True have "\<not> closed_source (sources s ! h)" by (simp add: closed_source_def)
  with c True have cur: "eventSource s = Some h" by (simp add: listened_is_current)
  let ?s1 = "set_readyState h OPEN s"
  have s1: "eventSource ?s1 = Some h" "listeners ?s1 = listeners s" "timers ?s1 = timers s"
    "next_timer ?s1 = next_timer s" "pingTimeout ?s1 = pingTimeout s"
    "checkerInterval ?s1 = checkerInterval s" "reconnectTimeout ?s1 = reconnectTimeout s"
    "sources ?s1 = at_handle h (\<lambda>e. e\<lparr>es_readyState := OPEN\<rparr>) (sources s)"
    by (simp_all add: set_readyState_def cur)
  have c1: "conn_inv ?s1"
    using c True cur by (auto simp add: conn_inv_def s1 nth_at_handle)
  have t1: "timer_inv ?s1 = timer_inv s"
    by (rule timer_inv_cong) (simp_all add: s1)
  have nopoll: "\<forall>q \<in> set (timers s). t_action (snd q) \<noteq> Poll"
    using no_poll_while_connecting [OF p cur] True by blast
  have p1: "poll_inv ?s1"
    using nopoll by (simp add: poll_inv_def s1)
  have lis: "on_open (sources ?s1 ! h) \<noteq> None"
    using c True cur by (simp add: conn_inv_def s1 nth_at_handle)
  let ?s' = "open_listener ?s1"
  have "conn_inv ?s' = conn_inv ?s1"
    by (rule conn_inv_cong) (simp_all add: open_listener_eq)
  moreover have "timer_inv ?s'"
    using t nopoll fresh_timer [OF t]
    by (auto simp add: timer_inv_def open_listener_eq s1 distinct_map_filter less_Suc_eq)
  moreover have "poll_inv ?s'"
    using nopoll True by (auto simp add: poll_inv_def open_listener_eq s1 nth_at_handle)
  ultimately have "session_inv ?s'" using c1 by (simp add: session_inv_def)
  with True lis show ?thesis by (simp add: Let_def)
qed

lemma inv_Es_error: "session_inv s \<Longrightarrow> session_inv (step (Es_error h again) s)"
proof (cases "h < length (sources s) \<and> es_readyState (sources s ! h) \<noteq> CLOSED")
  case False
  assume "session_inv s"
  with False show ?thesis by auto
next
  case True
  assume a: "session_inv s"
  then have c: "conn_inv s" and t: "timer_inv s" and p: "poll_inv s"
    by (simp_all add: session_inv_def)
  from True have "\<not> closed_source (sources s ! h)" by (simp add: closed_source_def)
  with c True have cur: "eventSource s = Some h" by (simp add: listened_is_current)
  let ?r = "if again then CONNECTING else CLOSED"
  let ?s1 = "set_readyState h ?r s"
  have s1: "eventSource ?s1 = Some h" "listeners ?s1 = listeners s" "timers ?s1 = timers s"
    "next_timer ?s1 = next_timer s" "pingTimeout ?s1 = pingTimeout s"
    "checkerInterval ?s1 = checkerInterval s" "reconnectTimeout ?s1 = reconnectTimeout s"
    "sources ?s1 = at_handle h (\<lambda>e. e\<lparr>es_readyState := ?r\<rparr>) (sources s)"
    by (simp_all add: set_readyState_def cur)
  have c1: "conn_inv ?s1"
    using c True cur by (auto simp add: conn_inv_def s1 nth_at_handle)
  have t1: "timer_inv ?s1"
    using t timer_inv_cong [of ?s1 s] by (simp add: s1)
  have u1: "unarmed ?s1 = unarmed s"
    by (rule unarmed_cong) (simp_all add: s1)
  have lis: "on_error (sources ?s1 ! h) \<noteq> None"
    using c True cur by (simp add: conn_inv_def s1 nth_at_handle)
  let ?s' = "error_listener ?s1"
  let ?old = "at_handle h (detach (listeners ?s1)) (sources ?s1)"
  have e: "eventSource ?s' = None" "sources ?s' = ?old"
    "timers ?s' = unarmed s @ [(next_timer s, \<lparr>t_action = Reconnect, t_delay = 2000, t_repeat = False\<rparr>)]"
    "next_timer ?s' = Suc (next_timer s)" "pingTimeout ?s' = pingTimeout s"
    "checkerInterval ?s' = checkerInterval s" "reconnectTimeout ?s' = Some (next_timer s)"
    by (simp_all add: error_listener_eq u1 s1(1-7))
  have "conn_inv ?s'"
    using sources_after_close [OF c1] by (simp add: conn_inv_def e(1,2) s1(1))
  moreover have "timer_inv ?s'"
    using t unarmed_only_recovery [OF t] unarmed_subset [of s] fresh_timer [OF t]
    by (auto simp add: timer_inv_def e distinct_unarmed less_Suc_eq)
  moreover have "poll_inv ?s'"
    using unarmed_only_recovery [OF t] by (auto simp add: poll_inv_def e)
  ultimately have "session_inv ?s'" by (simp add: session_inv_def)
  with True lis show ?thesis by (simp add: Let_def)
qed

lemma inv_Es_dies: "session_inv s \<Longrightarrow> session_inv (step (Es_dies h) s)"
proof (cases "h < length (sources s)")
  case False
  assume "session_inv s"
  with False show ?thesis by simp
next
  case True
  assume a: "session_inv s"
  then have c: "conn_inv s" and t: "timer_inv s" and p: "poll_inv s"
    by (simp_all add: session_inv_def)
  let ?s1 = "set_readyState h CLOSED s"
  have s1: "eventSource ?s1 = eventSource s" "listeners ?s1 = listeners s" "timers ?s1 = timers s"
    "next_timer ?s1 = next_timer s" "pingTimeout ?s1 = pingTimeout s"
    "checkerInterval ?s1 = checkerInterval s" "reconnectTimeout ?s1 = reconnectTimeout s"
    "sources ?s1 = at_handle h (\<lambda>e. e\<lparr>es_readyState := CLOSED\<rparr>) (sources s)"
    by (simp_all add: set_readyState_def)
  have "conn_inv ?s1"
    using c by (auto simp add: conn_inv_def s1 nth_at_handle closed_source_def)
  moreover have "timer_inv ?s1"
    using t timer_inv_cong [of ?s1 s] by (simp add: s1)
  moreover have "poll_inv ?s1"
    using p c by (fastforce simp add: poll_inv_def conn_inv_def s1 nth_at_handle)
  ultimately show ?thesis using True by (simp add: session_inv_def)
qed

lemma inv_unhandled: "session_inv (fst r) \<Longrightarrow> session_inv (unhandled r)"
proof -
  assume a: "session_inv (fst r)"
  have "session_inv (unhandled r) = session_inv (fst r)"
    by (rule inv_cong) (simp_all add: unhandled_def split: option.splits)
  with a show ?thesis by simp
qed

lemma inv_drop_timer:
  assumes "session_inv s"
  shows "session_inv (s\<lparr>timers := filter (\<lambda>p. fst p \<noteq> i) (timers s)\<rparr>)"
proof -
  from assms have c: "conn_inv s" and t: "timer_inv s" and p: "poll_inv s"
    by (simp_all add: session_inv_def)
  let ?s' = "s\<lparr>timers := filter (\<lambda>p. fst p \<noteq> i) (timers s)\<rparr>"
  have "conn_inv ?s' = conn_inv s"
    by (rule conn_inv_cong) simp_all
  moreover have "timer_inv ?s'"
    using t by (auto simp add: timer_inv_def distinct_map_filter)
  moreover have "poll_inv ?s'"
    using p by (fastforce simp add: poll_inv_def)
  ultimately show ?thesis using c by (simp add: session_inv_def)
qed

lemma inv_timer_callback: "session_inv s \<Longrightarrow> session_inv (fst (timer_callback a s))"
  by (cases a)
     (auto simp add: timer_callback_def inv_unhandled inv_start split: option.splits)

lemma inv_fire: "session_inv s \<Longrightarrow> session_inv (fire i s)"
  by (auto simp add: fire_def Let_def inv_unhandled inv_timer_callback inv_drop_timer
      split: option.splits)

lemma inv_other_fields [simp]:
  "session_inv (s\<lparr>fetches := a\<rparr>) = session_inv s"
  "session_inv (s\<lparr>next_fetch := b\<rparr>) = session_inv s"
  "session_inv (s\<lparr>accessToken := c\<rparr>) = session_inv s"
  "session_inv (s\<lparr>uncaught := d\<rparr>) = session_inv s"
  "session_inv (s\<lparr>trace := e\<rparr>) = session_inv s"
  "session_inv (s\<lparr>cachedLoginData := f\<rparr>) = session_inv s"
  "session_inv (s\<lparr>eventCallback := g\<rparr>) = session_inv s"
  "session_inv (s\<lparr>autoreconnect := h\<rparr>) = session_inv s"
  by (rule inv_cong; simp)+

lemma inv_recovery_delay: "session_inv s \<Longrightarrow> session_inv (set_Timeout RecoveryDelay d s)"
proof -
  assume a: "session_inv s"
  then have c: "conn_inv s" and t: "timer_inv s" and p: "poll_inv s"
    by (simp_all add: session_inv_def)
  let ?t = "set_Timeout RecoveryDelay d s"
  have "conn_inv ?t = conn_inv s"
    by (rule conn_inv_cong) (simp_all add: set_Timeout_def)
  moreover have "timer_inv ?t"
    using t fresh_timer [OF t]
    by (auto simp add: timer_inv_def set_Timeout_def less_Suc_eq)
  moreover have "poll_inv ?t"
    using p by (fastforce simp add: poll_inv_def set_Timeout_def)
  ultimately show ?thesis using c by (simp add: session_inv_def)
qed

lemma inv_login_response: "session_inv s \<Longrightarrow> session_inv (login_response f r s)"
  by (simp add: login_response_def Let_def inv_recovery_delay
      split: option.splits response.splits awaiter.splits)

lemma inv_fetch_POST [simp]: "session_inv (fetch_POST u b s) = session_inv s"
  by (rule inv_cong) (simp_all add: fetch_POST_def)

lemma inv_invoke [simp]: "session_inv (invoke cb ev s) = session_inv s"
  by (rule inv_cong) (simp_all add: invoke_def)

lemma inv_attach_recovery [simp]: "session_inv (attach_recovery f s) = session_inv s"
  by (rule inv_cong) (simp_all add: attach_recovery_def)

lemma inv_loginHashed: "session_inv s \<Longrightarrow> session_inv (fst (loginHashed e p s))"
  by (simp add: loginHashed_def Let_def)

lemma inv_hubLogin: "session_inv s \<Longrightarrow> session_inv (fst (hubLogin i t s))"
  by (simp add: hubLogin_def Let_def)

lemma inv_retryLogin: "session_inv s \<Longrightarrow> session_inv (fst (retryLogin s))"
  by (simp add: retryLogin_def inv_loginHashed inv_hubLogin split: option.splits)

lemma inv_call_eventCallback: "session_inv s \<Longrightarrow> session_inv (fst (call_eventCallback ev s))"
  by (simp add: call_eventCallback_def split: option.splits)

lemma inv_retryWithNewAccessToken: "session_inv s \<Longrightarrow> session_inv (fst (retryWithNewAccessToken s))"
proof -
  assume "session_inv s"
  then have c: "session_inv (closeEventSource s)" by (rule inv_closeEventSource)
  then have r: "session_inv (fst (retryLogin (closeEventSource s)))" by (rule inv_retryLogin)
  show ?thesis
  proof (cases "retryLogin (closeEventSource s)")
    case (Pair s2 pr)
    with r have "session_inv s2" by simp
    with Pair c show ?thesis
      by (cases pr) (simp_all add: retryWithNewAccessToken_def Let_def inv_call_eventCallback)
  qed
qed

lemma inv_message_listener: "session_inv s \<Longrightarrow> session_inv (fst (message_listener p s))"
proof -
  assume "session_inv s"
  then have m: "session_inv (messageReceived s)" by (rule inv_messageReceived)
  then have i: "session_inv (invoke cb ev (messageReceived s))" for cb ev by simp
  then have "session_inv (fst (retryWithNewAccessToken (invoke cb ev (messageReceived s))))"
    for cb ev by (rule inv_retryWithNewAccessToken)
  with m i show ?thesis
    using message_listener_ends [of p s] by auto
qed

lemma inv_step: "session_inv s \<Longrightarrow> session_inv (step i s)"
proof (cases i)
  case (Es_message h p)
  assume "session_inv s"
  then show ?thesis
    by (simp add: Es_message inv_unhandled inv_message_listener)
next
  case (Es_open h)
  assume "session_inv s"
  then show ?thesis unfolding Es_open by (rule inv_Es_open)
next
  case (Es_error h again)
  assume "session_inv s"
  then show ?thesis unfolding Es_error by (rule inv_Es_error)
next
  case (Es_dies h)
  assume "session_inv s"
  then show ?thesis unfolding Es_dies by (rule inv_Es_dies)
qed (simp_all add: inv_start stop_def inv_closeEventSource setAccessToken_def inv_loginHashed
      inv_hubLogin inv_retryWithNewAccessToken inv_fire inv_login_response)

lemma inv_run: "session_inv s \<Longrightarrow> session_inv (run ins s)"
  by (induction ins arbitrary: s) (simp_all add: inv_step)

lemma inv_constructor: "session_inv (constructor v opts)"
proof -
  have "session_inv (constructor v opts) = session_inv field_initializers"
    by (rule inv_cong) (simp_all add: constructor_def Let_def field_initializers_def)
  moreover have "session_inv field_initializers"
    by (simp add: session_inv_def conn_inv_def timer_inv_def poll_inv_def field_initializers_def)
  ultimately show ?thesis by simp
qed

lemma inv_reachable: "session_inv (run ins (constructor v opts))"
  by (rule inv_run) (rule inv_constructor)

subsection \<open>One connection at a time\<close>

text \<open>
  C1. In every state the session can reach, by any interleaving of calls from outside and
  of restarts from its own timers and listeners, every EventSource other than the one the
  handle refers to is closed and has no listener left; so at most one connection is live.
  Whenever \<open>start\<close>, called on any state, opens a connection while the handle is
  not null, it removes the three listeners from the old EventSource, closes it and sets
  the handle to null, and only then constructs the new one.
\<close>

theorem one_connection_at_a_time:
  assumes "s = run ins (constructor v opts)"
  shows "(\<forall>h < length (sources s). eventSource s \<noteq> Some h \<longrightarrow> closed_source (sources s ! h))
    \<and> (\<forall>x h. eventSource x = Some h \<and> snd (start cb x) = None \<longrightarrow>
          trace (fst (start cb x)) =
            trace x @ clears x @ clears x
            @ [E_removeEventListener h L_open (listeners x),
               E_removeEventListener h L_message (listeners x),
               E_removeEventListener h L_error (listeners x),
               E_close h,
               E_new_EventSource (length (sources x)) (start_url x),
               E_addEventListener (length (sources x)) L_open (next_closure x),
               E_addEventListener (length (sources x)) L_message (next_closure x),
               E_addEventListener (length (sources x)) L_error (next_closure x)]
          \<and> eventSource (closeEventSource (clearPendingActions (x\<lparr>eventCallback := cb\<rparr>))) = None
          \<and> eventSource (fst (start cb x)) = Some (length (sources x)))
    \<and> (\<forall>h. eventSource s = Some h \<and> snd (start cb s) = None \<longrightarrow>
          closed_source (sources (fst (start cb s)) ! h))"
proof -
  have i: "session_inv s" unfolding assms by (rule inv_reachable)
  then have c: "conn_inv s" by (simp add: session_inv_def)
  have first: "\<forall>h < length (sources s). eventSource s \<noteq> Some h \<longrightarrow> closed_source (sources s ! h)"
    using c by (simp add: conn_inv_def)
  have second: "trace (fst (start cb x)) =
            trace x @ clears x @ clears x
            @ [E_removeEventListener h L_open (listeners x),
               E_removeEventListener h L_message (listeners x),
               E_removeEventListener h L_error (listeners x),
               E_close h,
               E_new_EventSource (length (sources x)) (start_url x),
               E_addEventListener (length (sources x)) L_open (next_closure x),
               E_addEventListener (length (sources x)) L_message (next_closure x),
               E_addEventListener (length (sources x)) L_error (next_closure x)]
          \<and> eventSource (closeEventSource (clearPendingActions (x\<lparr>eventCallback := cb\<rparr>))) = None
          \<and> eventSource (fst (start cb x)) = Some (length (sources x))"
    if h: "eventSource x = Some h" and ok: "snd (start cb x) = None" for x h
  proof -
    from ok have g: "\<not> (accessToken x = None \<and> requireAuthentication x)"
      by (simp add: snd_start split: if_splits)
    have es: "eventSource (fst (start cb x)) = Some (length (sources x))"
      by (simp add: start_eq [OF g])
    have tr: "trace (fst (start cb x)) =
            trace x @ clears x @ clears x @ teardown h (listeners x)
            @ [E_new_EventSource (length (sources x)) (start_url x),
               E_addEventListener (length (sources x)) L_open (next_closure x),
               E_addEventListener (length (sources x)) L_message (next_closure x),
               E_addEventListener (length (sources x)) L_error (next_closure x)]"
      by (simp add: start_eq [OF g] h)
    have "eventSource (closeEventSource y) = None" for y
      by (simp add: closeEventSource_eq split: option.splits)
    with tr es show ?thesis by (simp add: teardown_def)
  qed
  have third: "closed_source (sources (fst (start cb s)) ! h)"
    if h: "eventSource s = Some h" and ok: "snd (start cb s) = None" for h
  proof -
    from ok have g: "\<not> (accessToken s = None \<and> requireAuthentication s)"
      by (simp add: snd_start split: if_splits)
    from c h have lt: "h < length (sources s)" by (simp add: conn_inv_def)
    have "session_inv (fst (start cb s))" using i by (rule inv_start)
    then have c': "conn_inv (fst (start cb s))" by (simp add: session_inv_def)
    have es: "eventSource (fst (start cb s)) = Some (length (sources s))"
      by (simp add: start_eq [OF g])
    have len: "length (sources (fst (start cb s))) = Suc (length (sources s))"
      by (simp add: start_eq [OF g] split: option.splits)
    show ?thesis
      using c' lt by (simp add: conn_inv_def es len)
  qed
  from first second third show ?thesis by blast
qed

theorem one_connection_at_a_time_witness:
  "eventSource (run [Call_setAccessToken (Some ''T''), Call_start (Some 1), Es_open 0]
                    (constructor ''1.0'' None)) = Some 0
   \<and> closed_source
       (sources (fst (start (Some 1)
          (run [Call_setAccessToken (Some ''T''), Call_start (Some 1), Es_open 0]
               (constructor ''1.0'' None))))
        ! 0)
   \<and> eventSource (fst (start (Some 1)
          (run [Call_setAccessToken (Some ''T''), Call_start (Some 1), Es_open 0]
               (constructor ''1.0'' None)))) = Some 1"
proof -
  let ?s = "run [Call_setAccessToken (Some ''T''), Call_start (Some 1), Es_open 0]
                (constructor ''1.0'' None)"
  have h: "eventSource ?s = Some 0" by code_simp
  have ok: "snd (start (Some 1) ?s) = None" by code_simp
  have n: "length (sources ?s) = 1" by code_simp
  note w = one_connection_at_a_time [OF refl, where cb = "Some 1"
      and ins = "[Call_setAccessToken (Some ''T''), Call_start (Some 1), Es_open 0]"
      and v = "''1.0''" and opts = None]
  from w h ok
  have "closed_source (sources (fst (start (Some 1) ?s)) ! 0)
        \<and> eventSource (fst (start (Some 1) ?s)) = Some (length (sources ?s))"
    by blast
  with h n show ?thesis by simp
qed

subsection \<open>The configuration does not change\<close>

lemma config_cong:
  "requireAuthentication t = requireAuthentication s \<Longrightarrow> sse_url t = sse_url s \<Longrightarrow>
   login_url t = login_url s \<Longrightarrow> hubLogin_baseUrl t = hubLogin_baseUrl s \<Longrightarrow>
   projectName t = projectName s \<Longrightarrow> config_of t = config_of s"
  by (simp add: config_of_def)

lemma config_closeEventSource [simp]: "config_of (closeEventSource s) = config_of s"
  by (rule config_cong) (simp_all add: closeEventSource_eq split: option.splits)

lemma config_start [simp]: "config_of (fst (start cb s)) = config_of s"
proof (cases "accessToken s = None \<and> requireAuthentication s")
  case True
  then show ?thesis by (simp add: start_rejected)
next
  case False
  show ?thesis by (rule config_cong) (simp_all add: start_eq [OF False])
qed

lemma config_messageReceived [simp]: "config_of (messageReceived s) = config_of s"
  by (rule config_cong) (simp_all add: messageReceived_eq)

lemma config_open_listener [simp]: "config_of (open_listener s) = config_of s"
  by (rule config_cong) (simp_all add: open_listener_eq)

lemma config_error_listener [simp]: "config_of (error_listener s) = config_of s"
  by (rule config_cong) (simp_all add: error_listener_eq)

lemma config_unhandled [simp]: "config_of (unhandled r) = config_of (fst r)"
  by (rule config_cong) (simp_all add: unhandled_def split: option.splits)

lemma config_set_readyState [simp]: "config_of (set_readyState h r s) = config_of s"
  by (rule config_cong) (simp_all add: set_readyState_def)

lemma config_loginHashed [simp]: "config_of (fst (loginHashed e p s)) = config_of s"
  by (rule config_cong) (simp_all add: loginHashed_def Let_def fetch_POST_def)

lemma config_hubLogin [simp]: "config_of (fst (hubLogin i t s)) = config_of s"
  by (rule config_cong) (simp_all add: hubLogin_def Let_def fetch_POST_def)

lemma config_retryLogin [simp]: "config_of (fst (retryLogin s)) = config_of s"
  by (simp add: retryLogin_def split: option.splits)

lemma config_call_eventCallback [simp]: "config_of (fst (call_eventCallback ev s)) = config_of s"
  by (rule config_cong) (simp_all add: call_eventCallback_def invoke_def split: option.splits)

lemma config_retryWithNewAccessToken [simp]:
  "config_of (fst (retryWithNewAccessToken s)) = config_of s"
proof (cases "retryLogin (closeEventSource s)")
  case (Pair s2 pr)
  have "config_of (fst (retryLogin (closeEventSource s))) = config_of s" by simp
  with Pair have s2: "config_of s2 = config_of s" by simp
  have a: "config_of (attach_recovery f s2) = config_of s2" for f
    by (rule config_cong) (simp_all add: attach_recovery_def)
  have b: "config_of (s2\<lparr>uncaught := x\<rparr>) = config_of s2" for x
    by (rule config_cong) simp_all
  from Pair s2 show ?thesis
    by (cases pr) (simp_all add: retryWithNewAccessToken_def Let_def a b)
qed

lemma config_message_listener [simp]: "config_of (fst (message_listener p s)) = config_of s"
proof -
  have i: "config_of (invoke cb ev (messageReceived s)) = config_of s" for cb ev
    by (rule config_cong) (simp_all add: invoke_def messageReceived_eq)
  then have "config_of (fst (retryWithNewAccessToken (invoke cb ev (messageReceived s))))
               = config_of s" for cb ev
    by simp
  with i show ?thesis
    using message_listener_ends [of p s] by auto
qed

lemma config_timer_callback [simp]: "config_of (fst (timer_callback a s)) = config_of s"
  by (cases a) (simp_all add: timer_callback_def split: option.splits)

lemma config_fire [simp]: "config_of (fire i s) = config_of s"
proof -
  have a: "config_of (s\<lparr>timers := x\<rparr>) = config_of s" for x
    by (rule config_cong) simp_all
  show ?thesis by (simp add: fire_def Let_def a split: option.splits)
qed

lemma config_login_response [simp]: "config_of (login_response f r s) = config_of s"
  by (rule config_cong)
     (simp_all add: login_response_def Let_def set_Timeout_def
       split: option.splits response.splits awaiter.splits)

lemma config_step [simp]: "config_of (step i s) = config_of s"
proof (cases i)
  case Call_stop
  have "config_of (s\<lparr>autoreconnect := False\<rparr>) = config_of s"
    by (rule config_cong) simp_all
  with Call_stop show ?thesis by (simp add: stop_def)
next
  case (Call_setAccessToken t)
  have "config_of (s\<lparr>accessToken := t\<rparr>) = config_of s"
    by (rule config_cong) simp_all
  with Call_setAccessToken show ?thesis by (simp add: setAccessToken_def)
qed (simp_all add: Let_def)

lemma config_run [simp]: "config_of (run ins s) = config_of s"
  by (induction ins arbitrary: s) simp_all

lemma config_constructor:
  "config_of (constructor v opts) =
     ((case opts of None \<Rightarrow> True
       | Some x \<Rightarrow> (case opt_requireAuthentication x of None \<Rightarrow> True | Some b \<Rightarrow> b)),
      nullish (opt_field opts opt_sseUrl) DEFAULT_sseUrl,
      nullish (opt_field opts opt_loginUrl) DEFAULT_loginUrl,
      (let b = nullish (opt_field opts opt_hubLoginBase) DEFAULT_hubLoginBase
       in if substr_last b \<noteq> ''/'' then b @ ''/'' else b),
      Some (''crownstone-lib-nodejs-sse-'' @ v @ ''-''
            @ nullish (opt_field opts opt_projectName) ''no_project_name''))"
  by (simp add: config_of_def constructor_def Let_def field_initializers_def js_string_def)

subsection \<open>Starting\<close>

text \<open>
  C6. \<open>start\<close> is rejected with the access token error exactly when authentication is
  required and the token is null, and then nothing has changed: no callback stored, no
  timer touched, no connection opened. In every other case it constructs an EventSource
  and makes it the current one.
\<close>

theorem start_requires_token:
  "(snd (start cb s) = Some AccessToken_required)
     = (accessToken s = None \<and> requireAuthentication s)
   \<and> (accessToken s = None \<and> requireAuthentication s \<longrightarrow> fst (start cb s) = s)
   \<and> (\<not> (accessToken s = None \<and> requireAuthentication s) \<longrightarrow>
        snd (start cb s) = None
        \<and> eventCallback (fst (start cb s)) = cb
        \<and> eventSource (fst (start cb s)) = Some (length (sources s))
        \<and> length (sources (fst (start cb s))) = Suc (length (sources s))
        \<and> es_readyState (sources (fst (start cb s)) ! length (sources s)) = CONNECTING
        \<and> E_new_EventSource (length (sources s)) (start_url s) \<in> set (trace (fst (start cb s))))"
proof -
  have a: "(snd (start cb s) = Some AccessToken_required)
     = (accessToken s = None \<and> requireAuthentication s)"
    by (simp add: snd_start)
  have b: "fst (start cb s) = s" if "accessToken s = None \<and> requireAuthentication s"
    using that by (rule start_rejected)
  have c: "snd (start cb s) = None
        \<and> eventCallback (fst (start cb s)) = cb
        \<and> eventSource (fst (start cb s)) = Some (length (sources s))
        \<and> length (sources (fst (start cb s))) = Suc (length (sources s))
        \<and> es_readyState (sources (fst (start cb s)) ! length (sources s)) = CONNECTING
        \<and> E_new_EventSource (length (sources s)) (start_url s) \<in> set (trace (fst (start cb s)))"
    if g: "\<not> (accessToken s = None \<and> requireAuthentication s)"
  proof -
    have len: "length (case eventSource s of None \<Rightarrow> sources s
              | Some h \<Rightarrow> at_handle h (detach (listeners s)) (sources s)) = length (sources s)"
      by (simp split: option.splits)
    from g have "snd (start cb s) = None" by (simp add: snd_start)
    moreover have "es_readyState (sources (fst (start cb s)) ! length (sources s)) = CONNECTING"
      by (simp add: start_eq [OF g] nth_append len attach_def)
    moreover have "length (sources (fst (start cb s))) = Suc (length (sources s))"
      by (simp add: start_eq [OF g] len)
    ultimately show ?thesis by (simp add: start_eq [OF g])
  qed
  from a b c show ?thesis by blast
qed

theorem start_requires_token_witness:
  "snd (start (Some 1) (constructor ''1.0'' None)) = Some AccessToken_required
   \<and> fst (start (Some 1) (constructor ''1.0'' None)) = constructor ''1.0'' None
   \<and> snd (start (Some 1) (setAccessToken (Some ''T'') (constructor ''1.0'' None))) = None
   \<and> eventSource (fst (start (Some 1) (setAccessToken (Some ''T'') (constructor ''1.0'' None))))
       = Some 0"
proof -
  let ?c = "constructor ''1.0'' None"
  let ?t = "setAccessToken (Some ''T'') ?c"
  have h1: "accessToken ?c = None \<and> requireAuthentication ?c" by code_simp
  have h2: "\<not> (accessToken ?t = None \<and> requireAuthentication ?t)" by code_simp
  have n: "length (sources ?t) = 0" by code_simp
  from start_requires_token [of "Some 1" ?c] h1
  have r1: "snd (start (Some 1) ?c) = Some AccessToken_required \<and> fst (start (Some 1) ?c) = ?c"
    by blast
  from start_requires_token [of "Some 1" ?t] h2
  have r2: "snd (start (Some 1) ?t) = None
            \<and> eventSource (fst (start (Some 1) ?t)) = Some (length (sources ?t))"
    by blast
  from r1 r2 n show ?thesis by simp
qed

text \<open>
  C8. Whenever \<open>start\<close> opens a connection, the URL of the new EventSource is the
  configured SSE URL, followed by \<open>?accessToken=\<close>, the current token, \<open>&projectName=\<close>
  and the client identifier when authentication is required, and nothing else when it is
  not. In particular \<open>setAccessToken(t)\<close> followed by \<open>start\<close> with authentication
  required opens a URL that contains \<open>accessToken=t\<close>.
\<close>

theorem start_opens_url:
  assumes "s = run ins (constructor v opts)"
    and "sse = nullish (opt_field opts opt_sseUrl) DEFAULT_sseUrl"
    and "client = ''crownstone-lib-nodejs-sse-'' @ v @ ''-''
                  @ nullish (opt_field opts opt_projectName) ''no_project_name''"
  shows "(snd (start cb s) = None \<and> requireAuthentication s \<longrightarrow>
           (\<exists>tok. accessToken s = Some tok
              \<and> es_url (sources (fst (start cb s)) ! length (sources s))
                  = sse @ ''?accessToken='' @ tok @ ''&projectName='' @ client))
    \<and> (snd (start cb s) = None \<and> \<not> requireAuthentication s \<longrightarrow>
          es_url (sources (fst (start cb s)) ! length (sources s)) = sse)
    \<and> (requireAuthentication s \<longrightarrow>
          snd (start cb (setAccessToken (Some t) s)) = None
          \<and> es_url (sources (fst (start cb (setAccessToken (Some t) s))) ! length (sources s))
              = sse @ ''?accessToken='' @ t @ ''&projectName='' @ client)"
proof -
  have "config_of s = config_of (constructor v opts)"
    unfolding assms(1) by simp
  then have cfg: "sse_url s = sse" "projectName s = Some client"
    by (simp_all add: config_constructor assms(2,3)) (simp_all add: config_of_def)
  have url: "es_url (sources (fst (start cb x)) ! length (sources x)) = start_url x"
    if "snd (start cb x) = None" for x
  proof -
    from that have g: "\<not> (accessToken x = None \<and> requireAuthentication x)"
      by (simp add: snd_start split: if_splits)
    have len: "length (case eventSource x of None \<Rightarrow> sources x
              | Some h \<Rightarrow> at_handle h (detach (listeners x)) (sources x)) = length (sources x)"
      by (simp split: option.splits)
    show ?thesis
      by (simp add: start_eq [OF g] nth_append len attach_def)
  qed
  have a: "\<exists>tok. accessToken s = Some tok
              \<and> es_url (sources (fst (start cb s)) ! length (sources s))
                  = sse @ ''?accessToken='' @ tok @ ''&projectName='' @ client"
    if "snd (start cb s) = None \<and> requireAuthentication s"
  proof -
    from that obtain tok where tok: "accessToken s = Some tok"
      by (auto simp add: snd_start split: if_splits)
    with that show ?thesis
      by (simp add: url start_url_def cfg js_string_def)
  qed
  have b: "es_url (sources (fst (start cb s)) ! length (sources s)) = sse"
    if "snd (start cb s) = None \<and> \<not> requireAuthentication s"
    using that by (simp add: url start_url_def cfg)
  have c: "snd (start cb (setAccessToken (Some t) s)) = None
          \<and> es_url (sources (fst (start cb (setAccessToken (Some t) s))) ! length (sources s))
              = sse @ ''?accessToken='' @ t @ ''&projectName='' @ client"
    if r: "requireAuthentication s"
  proof -
    let ?x = "setAccessToken (Some t) s"
    have ok: "snd (start cb ?x) = None"
      by (simp add: snd_start setAccessToken_def)
    have "es_url (sources (fst (start cb ?x)) ! length (sources ?x)) = start_url ?x"
      using ok by (rule url)
    moreover have "length (sources ?x) = length (sources s)"
      by (simp add: setAccessToken_def)
    moreover have "start_url ?x = sse @ ''?accessToken='' @ t @ ''&projectName='' @ client"
      using r by (simp add: start_url_def setAccessToken_def cfg js_string_def)
    ultimately show ?thesis using ok by simp
  qed
  from a b c show ?thesis by blast
qed

theorem start_opens_url_witness:
  "requireAuthentication (run [Call_hubLogin ''hub1'' ''tok1''] (constructor ''1.0'' None))
   \<and> es_url (sources (fst (start (Some 1) (setAccessToken (Some ''T'')
               (run [Call_hubLogin ''hub1'' ''tok1''] (constructor ''1.0'' None)))))
             ! length (sources (run [Call_hubLogin ''hub1'' ''tok1''] (constructor ''1.0'' None))))
      = ''https://events.ownstone.org/sse?accessToken=T&projectName=crownstone-lib-nodejs-sse-1.0-no_project_name''"
proof -
  let ?s = "run [Call_hubLogin ''hub1'' ''tok1''] (constructor ''1.0'' None)"
  have r: "requireAuthentication ?s" by code_simp
  from start_opens_url [OF refl refl refl, of "Some 1" "[Call_hubLogin ''hub1'' ''tok1'']" "''1.0''" None "''T''"] r
  have "es_url (sources (fst (start (Some 1) (setAccessToken (Some ''T'') ?s))) ! length (sources ?s))
        = nullish (opt_field None opt_sseUrl) DEFAULT_sseUrl @ ''?accessToken='' @ ''T''
          @ ''&projectName='' @ ''crownstone-lib-nodejs-sse-'' @ ''1.0'' @ ''-''
          @ nullish (opt_field None opt_projectName) ''no_project_name''"
    by blast
  with r show ?thesis
    by (simp add: nullish_def opt_field_def DEFAULT_sseUrl_def)
qed

subsection \<open>Logging in\<close>

text \<open>
  C9. The constructor leaves a hub login base URL that ends with \<open>/\<close> as it is and
  appends one \<open>/\<close> to any other, and the base URL never changes afterwards; \<open>hubLogin\<close>
  posts to the base URL followed by the hub id, \<open>/login?token=\<close> and the hub token.
\<close>

theorem hubLogin_url_normalized:
  assumes "s = run ins (constructor v opts)"
    and "base = nullish (opt_field opts opt_hubLoginBase) DEFAULT_hubLoginBase"
  shows "hubLogin_baseUrl s = (if base \<noteq> [] \<and> last base = CHR ''/'' then base else base @ ''/'')
    \<and> trace (fst (hubLogin hid tok s)) =
        trace s @ [E_fetch_POST (next_fetch s)
                     ((if base \<noteq> [] \<and> last base = CHR ''/'' then base else base @ ''/'')
                      @ hid @ ''/login?token='' @ tok)
                     No_body]"
proof -
  have "config_of s = config_of (constructor v opts)"
    unfolding assms(1) by simp
  then have b: "hubLogin_baseUrl s =
      (if base \<noteq> [] \<and> last base = CHR ''/'' then base else base @ ''/'')"
    by (simp add: config_constructor assms(2) Let_def)
       (auto simp add: config_of_def substr_last_def split: if_splits)
  have "trace (fst (hubLogin hid tok s)) =
        trace s @ [E_fetch_POST (next_fetch s) (hubLogin_baseUrl s @ hid @ ''/login?token='' @ tok)
                     No_body]"
    by (simp add: hubLogin_def Let_def fetch_POST_def)
  with b show ?thesis by simp
qed

theorem hubLogin_url_normalized_witness:
  "trace (fst (hubLogin ''hub1'' ''tok1''
       (run [] (constructor ''1.0''
          (Some \<lparr>opt_sseUrl = None, opt_loginUrl = None,
                 opt_hubLoginBase = Some ''https://cloud.ownstone.org/api/Hubs'',
                 opt_projectName = None, opt_autoreconnect = None,
                 opt_requireAuthentication = None\<rparr>)))))
   = [E_fetch_POST 0 ''https://cloud.ownstone.org/api/Hubs/hub1/login?token=tok1'' No_body]"
proof -
  let ?o = "Some \<lparr>opt_sseUrl = None, opt_loginUrl = None,
                 opt_hubLoginBase = Some ''https://cloud.ownstone.org/api/Hubs'',
                 opt_projectName = None, opt_autoreconnect = None,
                 opt_requireAuthentication = None\<rparr>"
  let ?s = "run [] (constructor ''1.0'' ?o)"
  have t: "trace ?s = []" by code_simp
  have n: "next_fetch ?s = 0" by code_simp
  have b: "nullish (opt_field ?o opt_hubLoginBase) DEFAULT_hubLoginBase
             = ''https://cloud.ownstone.org/api/Hubs''"
    by (simp add: nullish_def opt_field_def)
  from hubLogin_url_normalized [OF refl refl, where hid = "''hub1''" and tok = "''tok1''"
      and ins = "[]" and v = "''1.0''" and opts = ?o]
  show ?thesis unfolding b t n by simp
qed

text \<open>
  On cached login data that is there, \<open>retryLogin\<close> runs \<open>hubLogin\<close> again with the stored
  hub id and hub token when there is a \<open>hub\<close> entry, whether or not there is a \<open>user\<close>
  entry as well; with a \<open>user\<close> entry only it runs \<open>loginHashed\<close> again with the stored
  email and hashed password; with neither it is rejected with \<open>NO_CREDENTIALS\<close>.
\<close>

lemma retryLogin_dispatch:
  assumes "cachedLoginData s = Some c"
  shows "(\<forall>hc. hub c = Some hc \<longrightarrow>
           retryLogin s = hubLogin (hubId hc) (hubToken hc) s
           \<and> trace (fst (retryLogin s)) =
               trace s @ [E_fetch_POST (next_fetch s)
                            (hubLogin_baseUrl s @ hubId hc @ ''/login?token='' @ hubToken hc)
                            No_body])
    \<and> (\<forall>uc. hub c = None \<and> user c = Some uc \<longrightarrow>
           retryLogin s = loginHashed (email uc) (hashedPassword uc) s
           \<and> trace (fst (retryLogin s)) =
               trace s @ [E_fetch_POST (next_fetch s) (login_url s)
                            (Login_body (email uc) (hashedPassword uc))])
    \<and> (hub c = None \<and> user c = None \<longrightarrow> retryLogin s = (s, Rejected NO_CREDENTIALS))"
  using assms
  by (simp add: retryLogin_def hubLogin_def loginHashed_def Let_def fetch_POST_def)

text \<open>
  Before any login the field is null, and reading \<open>hub\<close> from it is a TypeError; the one
  caller, \<open>retryWithNewAccessToken\<close>, calls \<open>retryLogin\<close> only when the field is set.
\<close>

lemma retryLogin_without_data:
  "cachedLoginData s = None \<Longrightarrow> retryLogin s = (s, Rejected TypeError)"
  by (simp add: retryLogin_def)

text \<open>
  The session writes cached login data with one entry, in \<open>loginHashed\<close> and in
  \<open>hubLogin\<close>, and nowhere else: in every state it reaches the data is null or has
  exactly one entry.
\<close>

lemma cred_cong:
  "cachedLoginData t = cachedLoginData s \<Longrightarrow> one_credential t = one_credential s"
  by (simp add: one_credential_def)

lemma cred_closeEventSource [simp]: "one_credential (closeEventSource s) = one_credential s"
  by (rule cred_cong) (simp add: closeEventSource_eq split: option.splits)

lemma cred_start [simp]: "one_credential (fst (start cb s)) = one_credential s"
proof (cases "accessToken s = None \<and> requireAuthentication s")
  case True
  then show ?thesis by (simp add: start_rejected)
next
  case False
  show ?thesis by (rule cred_cong) (simp add: start_eq [OF False])
qed

lemma cred_messageReceived [simp]: "one_credential (messageReceived s) = one_credential s"
  by (rule cred_cong) (simp add: messageReceived_eq)

lemma cred_open_listener [simp]: "one_credential (open_listener s) = one_credential s"
  by (rule cred_cong) (simp add: open_listener_eq)

lemma cred_error_listener [simp]: "one_credential (error_listener s) = one_credential s"
  by (rule cred_cong) (simp add: error_listener_eq)

lemma cred_unhandled [simp]: "one_credential (unhandled r) = one_credential (fst r)"
  by (rule cred_cong) (simp add: unhandled_def split: option.splits)

lemma cred_set_readyState [simp]: "one_credential (set_readyState h r s) = one_credential s"
  by (rule cred_cong) (simp add: set_readyState_def)

lemma cred_invoke [simp]: "one_credential (invoke cb ev s) = one_credential s"
  by (rule cred_cong) (simp add: invoke_def)

lemma cred_loginHashed [simp]: "one_credential (fst (loginHashed e p s))"
  by (simp add: one_credential_def loginHashed_def Let_def fetch_POST_def)

lemma cred_hubLogin [simp]: "one_credential (fst (hubLogin i t s))"
  by (simp add: one_credential_def hubLogin_def Let_def fetch_POST_def)

lemma cred_retryLogin: "one_credential s \<Longrightarrow> one_credential (fst (retryLogin s))"
  by (simp add: retryLogin_def split: option.splits)

lemma cred_call_eventCallback [simp]:
  "one_credential (fst (call_eventCallback ev s)) = one_credential s"
  by (simp add: call_eventCallback_def split: option.splits)

lemma cred_retryWithNewAccessToken:
  "one_credential s \<Longrightarrow> one_credential (fst (retryWithNewAccessToken s))"
proof -
  assume a: "one_credential s"
  show ?thesis
  proof (cases "retryLogin (closeEventSource s)")
    case (Pair s2 pr)
    have "one_credential (fst (retryLogin (closeEventSource s)))"
      using a by (simp add: cred_retryLogin)
    with Pair have s2: "one_credential s2" by simp
    have x: "one_credential (attach_recovery f s2) = one_credential s2" for f
      by (rule cred_cong) (simp add: attach_recovery_def)
    have y: "one_credential (s2\<lparr>uncaught := u\<rparr>) = one_credential s2" for u
      by (rule cred_cong) simp
    from Pair s2 a show ?thesis
      by (cases pr) (simp_all add: retryWithNewAccessToken_def Let_def x y)
  qed
qed

lemma cred_message_listener:
  "one_credential s \<Longrightarrow> one_credential (fst (message_listener p s))"
proof -
  assume a: "one_credential s"
  then have "one_credential (fst (retryWithNewAccessToken (invoke cb ev (messageReceived s))))"
    for cb ev by (simp add: cred_retryWithNewAccessToken)
  with a show ?thesis
    using message_listener_ends [of p s] by auto
qed

lemma cred_timer_callback:
  "one_credential s \<Longrightarrow> one_credential (fst (timer_callback a s))"
  by (cases a) (simp_all add: timer_callback_def split: option.splits)

lemma cred_fire: "one_credential s \<Longrightarrow> one_credential (fire i s)"
proof -
  have a: "one_credential (s\<lparr>timers := x\<rparr>) = one_credential s" for x
    by (rule cred_cong) simp
  assume "one_credential s"
  then show ?thesis
    by (simp add: fire_def Let_def a cred_timer_callback split: option.splits)
qed

lemma cred_login_response: "one_credential (login_response f r s) = one_credential s"
  by (rule cred_cong)
     (simp add: login_response_def Let_def set_Timeout_def
       split: option.splits response.splits awaiter.splits)

lemma cred_step: "one_credential s \<Longrightarrow> one_credential (step i s)"
proof (cases i)
  case Call_stop
  assume a: "one_credential s"
  have "one_credential (s\<lparr>autoreconnect := False\<rparr>) = one_credential s"
    by (rule cred_cong) simp
  with a Call_stop show ?thesis by (simp add: stop_def)
next
  case (Call_setAccessToken t)
  assume a: "one_credential s"
  have "one_credential (s\<lparr>accessToken := t\<rparr>) = one_credential s"
    by (rule cred_cong) simp
  with a Call_setAccessToken show ?thesis by (simp add: setAccessToken_def)
qed (simp_all add: Let_def cred_retryWithNewAccessToken cred_message_listener cred_fire
      cred_login_response)

lemma cred_run: "one_credential s \<Longrightarrow> one_credential (run ins s)"
  by (induction ins arbitrary: s) (simp_all add: cred_step)

lemma cred_constructor: "one_credential (constructor v opts)"
  by (simp add: one_credential_def constructor_def Let_def field_initializers_def)

lemma never_NO_CREDENTIALS:
  "one_credential s \<Longrightarrow> snd (retryLogin s) \<noteq> Rejected NO_CREDENTIALS"
  by (auto simp add: one_credential_def retryLogin_def hubLogin_def loginHashed_def Let_def
      split: option.splits)

text \<open>
  C7. \<open>retryLogin\<close> is to fail with \<open>NO_CREDENTIALS\<close> when no credential is set. A session
  that has no credential is one that never logged in: its cached login data is null, as
  the constructor leaves it, and there \<open>retryLogin\<close> is rejected with a TypeError. In no
  state the session reaches is \<open>retryLogin\<close> rejected with \<open>NO_CREDENTIALS\<close>.
\<close>

theorem retryLogin_without_credentials:
  "retryLogin (constructor v opts) = (constructor v opts, Rejected TypeError)
   \<and> snd (retryLogin (run ins (constructor v opts))) \<noteq> Rejected NO_CREDENTIALS"
proof -
  have "cachedLoginData (constructor v opts) = None"
    by (simp add: constructor_def Let_def field_initializers_def)
  then have "retryLogin (constructor v opts) = (constructor v opts, Rejected TypeError)"
    by (rule retryLogin_without_data)
  moreover have "one_credential (run ins (constructor v opts))"
    by (rule cred_run) (rule cred_constructor)
  then have "snd (retryLogin (run ins (constructor v opts))) \<noteq> Rejected NO_CREDENTIALS"
    by (rule never_NO_CREDENTIALS)
  ultimately show ?thesis by blast
qed

subsection \<open>Messages and the token signal\<close>

lemma trace_closeEventSource:
  "\<exists>rest. trace (closeEventSource s) = trace s @ rest"
  by (simp add: closeEventSource_eq split: option.splits)

lemma trace_retryLogin: "\<exists>rest. trace (fst (retryLogin s)) = trace s @ rest"
  by (simp add: retryLogin_def hubLogin_def loginHashed_def Let_def fetch_POST_def
      split: option.splits)

lemma trace_retryWithNewAccessToken:
  "\<exists>rest. trace (fst (retryWithNewAccessToken s)) = trace s @ rest"
proof -
  obtain r1 where r1: "trace (closeEventSource s) = trace s @ r1"
    using trace_closeEventSource by blast
  obtain r2 where r2: "trace (fst (retryLogin (closeEventSource s))) = trace (closeEventSource s) @ r2"
    using trace_retryLogin by blast
  show ?thesis
  proof (cases "retryLogin (closeEventSource s)")
    case (Pair s2 pr)
    with r2 r1 have "trace s2 = trace s @ r1 @ r2" by simp
    with Pair r1 show ?thesis
      by (cases pr)
         (simp_all add: retryWithNewAccessToken_def Let_def call_eventCallback_def invoke_def
           attach_recovery_def split: option.splits)
  qed
qed

text \<open>
  With a callback registered, the value a message parses to is given to the callback
  first. \<open>retryWithNewAccessToken\<close> runs after that, on the state the callback left,
  exactly when the value is an object whose \<open>type\<close> is the string \<open>system\<close>, whose \<open>code\<close>
  is the number 401 and whose \<open>subType\<close> the comparison \<open>==\<close> finds equal to
  \<open>TOKEN_EXPIRED\<close> or \<open>INVALID_ACCESS_TOKEN\<close>: the string itself, or an array of one
  element that is again such a string or array. No other message runs it: not a value of
  another shape, not a message without data, not one whose data does not parse.
\<close>

lemma recovery_follows_callback:
  assumes "eventCallback s = Some cb"
  shows "(token_signal m \<longrightarrow>
            message_listener (Parsed m) s
              = retryWithNewAccessToken (invoke cb m (messageReceived s)))
    \<and> (\<not> token_signal m \<longrightarrow>
            fst (message_listener (Parsed m) s) = invoke cb m (messageReceived s))
    \<and> (\<exists>rest. trace (fst (message_listener (Parsed m) s))
                 = trace (messageReceived s) @ E_callback cb m # rest
               \<and> (\<not> token_signal m \<longrightarrow> rest = []))
    \<and> message_listener No_data s = (messageReceived s, None)
    \<and> message_listener Unparsable s = (messageReceived s, Some SyntaxError)"
proof -
  let ?s1 = "messageReceived s"
  let ?s2 = "invoke cb m ?s1"
  note a = message_listener_parsed [OF assms, of m]
  have b: "\<exists>rest. trace (fst (message_listener (Parsed m) s)) = trace ?s1 @ E_callback cb m # rest
               \<and> (\<not> token_signal m \<longrightarrow> rest = [])"
  proof (cases "token_signal m")
    case True
    obtain rest where "trace (fst (retryWithNewAccessToken ?s2)) = trace ?s2 @ rest"
      using trace_retryWithNewAccessToken by blast
    with True a(1) show ?thesis by (simp add: invoke_def)
  next
    case False
    with a(2) show ?thesis by (simp add: invoke_def)
  qed
  from a b message_listener_no_event [of s] show ?thesis by blast
qed

text \<open>
  C4. A message that is not of the shape of the token signal is not to start the
  recovery. The \<open>subType\<close> of this message is an array, not the string \<open>TOKEN_EXPIRED\<close>,
  and the session runs the recovery all the same: after the callback has been given the
  message, the listener goes on as \<open>retryWithNewAccessToken\<close> does, which closes the
  connection and, no credentials being cached, tells the callback that the token could
  not be refreshed. The listener compares \<open>type\<close> and \<open>code\<close> with \<open>===\<close> and \<open>subType\<close>
  with \<open>==\<close>.
\<close>

theorem token_signal_in_array:
  "get_property TOKEN_EXPIRED_in_array ''subType'' = Inr (Some (JArr [JStr ''TOKEN_EXPIRED'']))
   \<and> message_listener (Parsed TOKEN_EXPIRED_in_array)
       (run [Call_setAccessToken (Some ''T''), Call_start (Some 7), Es_open 0]
            (constructor ''1.0'' None))
     = retryWithNewAccessToken
         (invoke 7 TOKEN_EXPIRED_in_array
            (messageReceived
               (run [Call_setAccessToken (Some ''T''), Call_start (Some 7), Es_open 0]
                    (constructor ''1.0'' None))))
   \<and> delivered (trace
       (run [Call_setAccessToken (Some ''T''), Call_start (Some 7), Es_open 0,
             Es_message 0 (Parsed TOKEN_EXPIRED_in_array)]
            (constructor ''1.0'' None)))
     = [(7, TOKEN_EXPIRED_in_array),
        (7, COULD_NOT_REFRESH_TOKEN
              ''Token expired, autoconnect is disabled or does not have login credentials. Connection closed.'')]
   \<and> eventSource
       (run [Call_setAccessToken (Some ''T''), Call_start (Some 7), Es_open 0,
             Es_message 0 (Parsed TOKEN_EXPIRED_in_array)]
            (constructor ''1.0'' None)) = None
   \<and> map es_readyState (sources
       (run [Call_setAccessToken (Some ''T''), Call_start (Some 7), Es_open 0,
             Es_message 0 (Parsed TOKEN_EXPIRED_in_array)]
            (constructor ''1.0'' None))) = [CLOSED]"
  by code_simp

subsection \<open>Recovery that nobody stops, and recovery that fails\<close>

text \<open>
  C2. A session logs in as a hub, starts, opens, and receives the \<open>TOKEN_EXPIRED\<close>
  signal: the login is repeated. \<open>stop\<close> is called while that login is in flight. The
  login then succeeds, the two second delay passes, and the session opens a new
  connection, although nobody called \<open>start\<close> again.
\<close>

theorem stop_during_recovery:
  "eventSource
     (run [Call_hubLogin ''hub1'' ''tok1'', Fetch_responds 0 (Resp_id ''T''),
           Call_start (Some 7), Es_open 0, Es_message 0 (Parsed TOKEN_EXPIRED), Call_stop]
          (constructor ''1.0'' None)) = None
   \<and> timers
     (run [Call_hubLogin ''hub1'' ''tok1'', Fetch_responds 0 (Resp_id ''T''),
           Call_start (Some 7), Es_open 0, Es_message 0 (Parsed TOKEN_EXPIRED), Call_stop]
          (constructor ''1.0'' None)) = []
   \<and> autoreconnect
     (run [Call_hubLogin ''hub1'' ''tok1'', Fetch_responds 0 (Resp_id ''T''),
           Call_start (Some 7), Es_open 0, Es_message 0 (Parsed TOKEN_EXPIRED), Call_stop]
          (constructor ''1.0'' None)) = False
   \<and> eventSource
     (run [Call_hubLogin ''hub1'' ''tok1'', Fetch_responds 0 (Resp_id ''T''),
           Call_start (Some 7), Es_open 0, Es_message 0 (Parsed TOKEN_EXPIRED), Call_stop,
           Fetch_responds 1 (Resp_id ''T2''), Timer_fires 3]
          (constructor ''1.0'' None)) = Some 1
   \<and> map es_readyState (sources
     (run [Call_hubLogin ''hub1'' ''tok1'', Fetch_responds 0 (Resp_id ''T''),
           Call_start (Some 7), Es_open 0, Es_message 0 (Parsed TOKEN_EXPIRED), Call_stop,
           Fetch_responds 1 (Resp_id ''T2''), Timer_fires 3]
          (constructor ''1.0'' None))) = [CLOSED, CONNECTING]"
  by code_simp

text \<open>
  C3. The same session, with auto-reconnect on and hub credentials cached, receives the
  \<open>TOKEN_EXPIRED\<close> signal, and the repeated login is answered with a 401. The callback
  has been given the signal and nothing else: no \<open>COULD_NOT_REFRESH_TOKEN\<close> event. The
  rejection is handled by nobody, and the session is left closed with nothing pending.
\<close>

theorem failed_refresh_is_silent:
  "delivered (trace
     (run [Call_hubLogin ''hub1'' ''tok1'', Fetch_responds 0 (Resp_id ''T''),
           Call_start (Some 7), Es_open 0, Es_message 0 (Parsed TOKEN_EXPIRED),
           Fetch_responds 1 (Resp_401 ''LOGIN_FAILED'')]
          (constructor ''1.0'' None))) = [(7, TOKEN_EXPIRED)]
   \<and> uncaught
     (run [Call_hubLogin ''hub1'' ''tok1'', Fetch_responds 0 (Resp_id ''T''),
           Call_start (Some 7), Es_open 0, Es_message 0 (Parsed TOKEN_EXPIRED),
           Fetch_responds 1 (Resp_401 ''LOGIN_FAILED'')]
          (constructor ''1.0'' None)) = [Login_error ''LOGIN_FAILED'']
   \<and> autoreconnect
     (run [Call_hubLogin ''hub1'' ''tok1'', Fetch_responds 0 (Resp_id ''T''),
           Call_start (Some 7), Es_open 0, Es_message 0 (Parsed TOKEN_EXPIRED),
           Fetch_responds 1 (Resp_401 ''LOGIN_FAILED'')]
          (constructor ''1.0'' None)) = True
   \<and> eventSource
     (run [Call_hubLogin ''hub1'' ''tok1'', Fetch_responds 0 (Resp_id ''T''),
           Call_start (Some 7), Es_open 0, Es_message 0 (Parsed TOKEN_EXPIRED),
           Fetch_responds 1 (Resp_401 ''LOGIN_FAILED'')]
          (constructor ''1.0'' None)) = None
   \<and> timers
     (run [Call_hubLogin ''hub1'' ''tok1'', Fetch_responds 0 (Resp_id ''T''),
           Call_start (Some 7), Es_open 0, Es_message 0 (Parsed TOKEN_EXPIRED),
           Fetch_responds 1 (Resp_401 ''LOGIN_FAILED'')]
          (constructor ''1.0'' None)) = []
   \<and> fetches
     (run [Call_hubLogin ''hub1'' ''tok1'', Fetch_responds 0 (Resp_id ''T''),
           Call_start (Some 7), Es_open 0, Es_message 0 (Parsed TOKEN_EXPIRED),
           Fetch_responds 1 (Resp_401 ''LOGIN_FAILED'')]
          (constructor ''1.0'' None)) = []"
  by code_simp

subsection \<open>The heartbeat deadline\<close>







lemma unhandled_fields [simp]:
  "timers (unhandled r) = timers (fst r)" "sources (unhandled r) = sources (fst r)"
  "eventSource (unhandled r) = eventSource (fst r)" "trace (unhandled r) = trace (fst r)"
  by (simp_all add: unhandled_def split: option.splits)










subsection \<open>Construction\<close>

text \<open>
  C10. Without options, or with options that omit the field, the constructed session has
  \<open>autoreconnect = true\<close> and \<open>requireAuthentication = true\<close>, although the field
  initialiser of \<open>autoreconnect\<close> is \<open>false\<close>; a boolean the caller supplies, \<open>false\<close>
  included, is used as it is.
\<close>

theorem constructor_defaults:
  "autoreconnect field_initializers = False
   \<and> autoreconnect (constructor v None) = True
   \<and> requireAuthentication (constructor v None) = True
   \<and> autoreconnect (constructor v (Some x)) =
       (case opt_autoreconnect x of None \<Rightarrow> True | Some b \<Rightarrow> b)
   \<and> requireAuthentication (constructor v (Some x)) =
       (case opt_requireAuthentication x of None \<Rightarrow> True | Some b \<Rightarrow> b)"
  by (simp add: constructor_def field_initializers_def Let_def)

end
